theory Spec2Isabelle
  imports Main "HOL-Library.Word"
begin

section \<open>Generating simplestreams tools metadata: plugins/juju-metadata/toolsmetadata.go\<close>

text \<open>
  The file holds one command, \<open>ToolsMetadataCommand\<close>, whose \<open>Run\<close> method finds the
  tools of an environment, optionally downloads each of them to compute its size and
  SHA-256 digest, marshals the resulting records into an index and a products document
  and writes both to the environment's storage, and the helper \<open>fetchToolsHash\<close>.

  \<open>Run\<close> is a sequence of calls to other packages (environs, localstorage, tools,
  net/url, net/http, crypto/sha256, path/filepath). Their code is not part of the file,
  so each of them is a field of the record \<open>world\<close>, and every theorem below holds for
  every world. The calls that can fail or that act outside the process are logged, with
  their answers, in a trace (a list of events, oldest first); the answers of the network
  and of the storage may depend on the trace so far.
\<close>

subsection \<open>Data\<close>

type_synonym byte = "8 word"

text \<open>A Go \<open>error\<close> value that is not nil.\<close>

datatype error = Error string

text \<open>
  An \<open>io.Reader\<close>, as the sequence of its future reads: a read delivers some bytes, or
  reports the end of the stream, or fails.
\<close>

datatype body = EOF | ReadError error | Chunk "byte list" body

text \<open>\<open>http.Response\<close>: the status code and the body.\<close>

record Response =
  StatusCode :: int
  Body :: body

text \<open>\<open>url.URL\<close>: \<open>Run\<close> reads its \<open>Path\<close> only.\<close>

record URL =
  url_Scheme :: string
  url_Host :: string
  url_Path :: string

text \<open>\<open>version.Number\<close>, \<open>version.Binary\<close> and \<open>coretools.Tools\<close>: one candidate.\<close>

record Number =
  Major :: int
  Minor :: int
  Patch :: int
  Build :: int

record Binary =
  bin_Number :: Number
  bin_Series :: string
  bin_Arch :: string

record Tools =
  tools_Version :: Binary
  tools_URL :: string

text \<open>\<open>tools.ToolsMetadata\<close>: one record of the products document.\<close>

record ToolsMetadata =
  Release :: string
  Version :: string
  Arch :: string
  Path :: string
  FileType :: string
  Size :: int
  SHA256 :: string

text \<open>
  \<open>environs.Storage\<close> and \<open>environs.Environ\<close>. \<open>localdirEnv\<close> (lines 157-166) wraps an
  environment and answers \<open>Storage()\<close> with the storage it holds.
\<close>

datatype storage = EnvironStorage string | localstorage_Client string

datatype env = Environ string | localdirEnv env storage

fun Storage :: "env \<Rightarrow> storage" where
  "Storage (Environ n) = EnvironStorage n"
| "Storage (localdirEnv e s) = s"

text \<open>The command: the embedded \<open>EnvCommandBase\<close> gives \<open>EnvName\<close>.\<close>

record ToolsMetadataCommand =
  EnvName :: string
  fetch :: bool
  metadataDir :: string

text \<open>How \<open>Run\<close> ends: it returns an error value (nil is \<open>None\<close>) or it panics.\<close>

datatype outcome = Return "error option" | Panic

text \<open>The trace: what was written to \<open>context.Stdout\<close>, and each call with its answer.\<close>

datatype event =
    Printed string
  | Found env int "error + Tools list"
  | Parsed string "error + URL"
  | Fetched string "error + Response"
  | Marshalled "ToolsMetadata list" "error + byte list \<times> byte list"
  | Resolved storage string "error + string"
  | Put storage string "byte list" int "error option"
  | Closed

record world =
  environs_NewFromName :: "string \<Rightarrow> error + env"
  utils_NormalizePath :: "string \<Rightarrow> string"
  localstorage_Serve :: "string \<Rightarrow> string \<Rightarrow> error + string"
  version_Current_Major :: int
  tools_FindTools :: "env \<Rightarrow> int \<Rightarrow> error + Tools list"
  url_Parse :: "string \<Rightarrow> error + URL"
  Number_String :: "Number \<Rightarrow> string"
  http_Get :: "event list \<Rightarrow> string \<Rightarrow> error + Response"
  sha256_Sum :: "byte list \<Rightarrow> byte list"
  tools_MarshalToolsMetadataJSON :: "ToolsMetadata list \<Rightarrow> error + byte list \<times> byte list"
  simplestreams_DefaultIndexPath :: string
  simplestreams_UnsignedSuffix :: string
  tools_ProductMetadataPath :: string
  filepath_Join :: "string \<Rightarrow> string \<Rightarrow> string"
  Storage_URL :: "event list \<Rightarrow> storage \<Rightarrow> string \<Rightarrow> error + string"
  Storage_Put :: "event list \<Rightarrow> storage \<Rightarrow> string \<Rightarrow> byte list \<Rightarrow> int \<Rightarrow> error option"

subsection \<open>Formatting\<close>

text \<open>Line 29.\<close>

definition pathPrefix :: string where
  "pathPrefix = ''tools/''"

definition newline :: char where
  "newline = CHR 0x0A"

text \<open>\<open>fmt.Fprintln\<close>: the operands separated by spaces, and a newline.\<close>

fun spaced :: "string list \<Rightarrow> string" where
  "spaced [] = []"
| "spaced [s] = s"
| "spaced (s # t # ss) = s @ '' '' @ spaced (t # ss)"

definition Sprintln :: "string list \<Rightarrow> string" where
  "Sprintln ss = spaced ss @ [newline]"

text \<open>\<open>fmt.Sprintf("%x", b)\<close> for a byte slice: two lower-case hex digits a byte.\<close>

definition hexdigit :: "nat \<Rightarrow> char" where
  "hexdigit n = ''0123456789abcdef'' ! n"

definition hex_byte :: "byte \<Rightarrow> string" where
  "hex_byte b = [hexdigit (unat b div 16), hexdigit (unat b mod 16)]"

definition Sprintf_x :: "byte list \<Rightarrow> string" where
  "Sprintf_x bs = concat (map hex_byte bs)"

subsection \<open>fetchToolsHash (lines 146-155)\<close>

text \<open>
  The state of a \<open>hash.Hash\<close> is the bytes written to it so far; \<open>Sum(nil)\<close> is
  \<open>sha256_Sum\<close> of them. \<open>io.Copy\<close> reads the source until it ends or fails, writes what
  it read to the hash, and returns the number of bytes copied and the read error. The
  count is an int64; it is modelled by an unbounded integer, a body of \<open>2^63\<close> bytes being
  out of reach.
\<close>

fun io_Copy :: "byte list \<Rightarrow> body \<Rightarrow> int \<times> byte list \<times> error option" where
  "io_Copy h EOF = (0, h, None)"
| "io_Copy h (ReadError e) = (0, h, Some e)"
| "io_Copy h (Chunk bs rest) =
     (case io_Copy (h @ bs) rest of (n, h', err) \<Rightarrow> (int (length bs) + n, h', err))"

text \<open>
  The result is \<open>(size, sha256hash, err)\<close>, the hash being nil (\<open>None\<close>) when the request
  failed. The status code of the response is not read.
\<close>

definition fetchToolsHash ::
  "world \<Rightarrow> event list \<Rightarrow> string \<Rightarrow> (int \<times> byte list option \<times> error option) \<times> event list" where
  "fetchToolsHash w tr url =
     (let got = http_Get w tr url; tr' = tr @ [Fetched url got] in
      case got of
        Inl e \<Rightarrow> ((0, None, Some e), tr')
      | Inr resp \<Rightarrow>
          (case io_Copy [] (Body resp) of (n, h, err) \<Rightarrow> ((n, Some h, err), tr')))"

subsection \<open>Run (lines 53-141)\<close>

text \<open>
  The body of the first loop (lines 78-106) for one candidate. \<open>u.Path[1:]\<close> panics when
  the path is empty; \<open>sha256hash.Sum\<close> would panic on a nil hash.
\<close>

definition candidate ::
  "world \<Rightarrow> bool \<Rightarrow> Tools \<Rightarrow> event list \<Rightarrow> (outcome + ToolsMetadata) \<times> event list" where
  "candidate w fetching t tr =
     (let parsed = url_Parse w (tools_URL t); tr1 = tr @ [Parsed (tools_URL t) parsed] in
      case parsed of
        Inl e \<Rightarrow> (Inl (Return (Some e)), tr1)
      | Inr u \<Rightarrow>
          if length (url_Path u) < 1 then (Inl Panic, tr1)
          else
            let urlPath = drop 1 (url_Path u);
                metadata = (\<lambda>n sha256hex.
                  \<lparr>Release = bin_Series (tools_Version t),
                   Version = Number_String w (bin_Number (tools_Version t)),
                   Arch = bin_Arch (tools_Version t),
                   Path = urlPath,
                   FileType = ''tar.gz'',
                   Size = n,
                   SHA256 = sha256hex\<rparr>)
            in
              if fetching then
                let tr2 = tr1 @ [Printed (Sprintln [''Fetching tools to generate hash:'', tools_URL t])]
                in
                  case fetchToolsHash w tr2 (tools_URL t) of
                    ((n, sha256hash, Some e), tr3) \<Rightarrow> (Inl (Return (Some e)), tr3)
                  | ((n, None, None), tr3) \<Rightarrow> (Inl Panic, tr3)
                  | ((n, Some h, None), tr3) \<Rightarrow>
                      (Inr (metadata n (Sprintf_x (sha256_Sum w h))), tr3)
              else (Inr (metadata 0 ''''), tr1))"

text \<open>The first loop (lines 76-107): the records in the order of the candidates.\<close>

fun assemble ::
  "world \<Rightarrow> bool \<Rightarrow> Tools list \<Rightarrow> event list \<Rightarrow> (outcome + ToolsMetadata list) \<times> event list" where
  "assemble w fetching [] tr = (Inr [], tr)"
| "assemble w fetching (t # ts) tr =
     (case candidate w fetching t tr of
        (Inl out, tr1) \<Rightarrow> (Inl out, tr1)
      | (Inr m, tr1) \<Rightarrow>
          (case assemble w fetching ts tr1 of
             (Inl out, tr2) \<Rightarrow> (Inl out, tr2)
           | (Inr ms, tr2) \<Rightarrow> (Inr (m # ms), tr2)))"

text \<open>
  The body of the second loop (lines 121-138) for one object: \<open>Inl e\<close> when \<open>Run\<close>
  returns \<open>e\<close> there, \<open>Inr err\<close> when the loop goes on. \<open>err\<close> is the variable of the
  function's scope, which line 133 tests and line 136 assigns: the \<open>err\<close> of line 125 is
  another one, local to the else branch.
\<close>

definition put_object ::
  "world \<Rightarrow> string \<Rightarrow> env \<Rightarrow> error option \<Rightarrow> string \<times> byte list \<Rightarrow> event list
     \<Rightarrow> (error + error option) \<times> event list" where
  "put_object w dir environ err object tr =
     (case
        (if dir \<noteq> '''' then (Inr (filepath_Join w dir (fst object)), tr)
         else
           let objectUrl = Storage_URL w tr (Storage environ) (fst object)
           in (objectUrl, tr @ [Resolved (Storage environ) (fst object) objectUrl]))
      of
        (Inl e, tr1) \<Rightarrow> (Inl e, tr1)
      | (Inr path, tr1) \<Rightarrow>
          let tr2 = tr1 @ [Printed (''Writing '' @ path @ [newline])] in
          (case err of
             Some e \<Rightarrow> (Inl e, tr2)
           | None \<Rightarrow>
               let n = int (length (snd object));
                   put = Storage_Put w tr2 (Storage environ) (fst object) (snd object) n;
                   tr3 = tr2 @ [Put (Storage environ) (fst object) (snd object) n put]
               in
                 (case put of
                    Some e \<Rightarrow> (Inl e, tr3)
                  | None \<Rightarrow> (Inr None, tr3))))"

text \<open>The second loop (lines 120-139), and the \<open>return nil\<close> of line 140.\<close>

fun put_objects ::
  "world \<Rightarrow> string \<Rightarrow> env \<Rightarrow> error option \<Rightarrow> (string \<times> byte list) list \<Rightarrow> event list
     \<Rightarrow> error option \<times> event list" where
  "put_objects w dir environ err [] tr = (None, tr)"
| "put_objects w dir environ err (object # objects) tr =
     (case put_object w dir environ err object tr of
        (Inl e, tr1) \<Rightarrow> (Some e, tr1)
      | (Inr err', tr1) \<Rightarrow> put_objects w dir environ err' objects tr1)"

text \<open>The two objects (lines 113-119).\<close>

definition index_path :: "world \<Rightarrow> string" where
  "index_path w = pathPrefix @ simplestreams_DefaultIndexPath w @ simplestreams_UnsignedSuffix w"

definition products_path :: "world \<Rightarrow> string" where
  "products_path w = pathPrefix @ tools_ProductMetadataPath w"

text \<open>
  Lines 70-140: \<open>Run\<close> once the environment is chosen. \<open>dir\<close> is \<open>c.metadataDir\<close> as it
  stands then.
\<close>

definition generate :: "world \<Rightarrow> bool \<Rightarrow> string \<Rightarrow> env \<Rightarrow> outcome \<times> event list" where
  "generate w fetching dir environ =
     (let major = version_Current_Major w;
          found = tools_FindTools w environ major;
          tr = [Printed (Sprintln [''Finding tools...'']), Found environ major found]
      in
        case found of
          Inl e \<Rightarrow> (Return (Some e), tr)
        | Inr toolsList \<Rightarrow>
            (case assemble w fetching toolsList tr of
               (Inl out, tr1) \<Rightarrow> (out, tr1)
             | (Inr metadata, tr1) \<Rightarrow>
                 let marshalled = tools_MarshalToolsMetadataJSON w metadata;
                     tr2 = tr1 @ [Marshalled metadata marshalled]
                 in
                   (case marshalled of
                      Inl e \<Rightarrow> (Return (Some e), tr2)
                    | Inr (index, products) \<Rightarrow>
                        (case put_objects w dir environ None
                                [(index_path w, index), (products_path w, products)] tr2
                         of (err, tr3) \<Rightarrow> (Return err, tr3)))))"

text \<open>
  \<open>Run\<close>. With a metadata directory, the directory is normalised and stored back in the
  command, a listener serves it on a loopback address and the environment is wrapped so
  that its storage is a client of that listener; the deferred \<open>listener.Close()\<close> runs
  however the rest ends.
\<close>

definition Run :: "world \<Rightarrow> ToolsMetadataCommand \<Rightarrow> outcome \<times> event list" where
  "Run w c =
     (case environs_NewFromName w (EnvName c) of
        Inl e \<Rightarrow> (Return (Some e), [])
      | Inr environ \<Rightarrow>
          if metadataDir c \<noteq> '''' then
            let dir = utils_NormalizePath w (metadataDir c) in
            (case localstorage_Serve w ''127.0.0.1:0'' dir of
               Inl e \<Rightarrow> (Return (Some e), [])
             | Inr storageAddr \<Rightarrow>
                 (case generate w (fetch c) dir (localdirEnv environ (localstorage_Client storageAddr))
                  of (out, tr) \<Rightarrow> (out, tr @ [Closed])))
          else generate w (fetch c) '''' environ)"

subsection \<open>Reading a run\<close>

text \<open>
  What a body delivers before it ends or fails, and the failure if any; the writes a
  trace holds, each as the logical path, the payload and the answer of the storage; the
  events the first loop can log.
\<close>

fun body_bytes :: "body \<Rightarrow> byte list" where
  "body_bytes EOF = []"
| "body_bytes (ReadError e) = []"
| "body_bytes (Chunk bs rest) = bs @ body_bytes rest"

fun body_error :: "body \<Rightarrow> error option" where
  "body_error EOF = None"
| "body_error (ReadError e) = Some e"
| "body_error (Chunk bs rest) = body_error rest"

fun write_of :: "event \<Rightarrow> (string \<times> byte list \<times> error option) list" where
  "write_of (Put s p d n r) = [(p, d, r)]"
| "write_of _ = []"

definition writes :: "event list \<Rightarrow> (string \<times> byte list \<times> error option) list" where
  "writes tr = concat (map write_of tr)"

fun loop_event :: "event \<Rightarrow> bool" where
  "loop_event (Printed l) = True"
| "loop_event (Parsed s r) = True"
| "loop_event (Fetched s r) = True"
| "loop_event _ = False"

fun publish_event :: "event \<Rightarrow> bool" where
  "publish_event (Printed l) = True"
| "publish_event (Resolved s p r) = True"
| "publish_event (Put s p d n r) = True"
| "publish_event _ = False"

text \<open>The error \<open>fetchToolsHash\<close> returns, read from the answer of \<open>http.Get\<close>.\<close>

fun fetch_error :: "error + Response \<Rightarrow> error option" where
  "fetch_error (Inl e) = Some e"
| "fetch_error (Inr resp) = body_error (Body resp)"

text \<open>
  The pieces of a trace of \<open>Run\<close>: how it starts once the environment is there, how it
  ends (the deferred close, with a metadata directory), the value of \<open>c.metadataDir\<close>
  from line 68 on, and what the second loop logs for an object before it writes it.
\<close>

definition start :: "world \<Rightarrow> env \<Rightarrow> event list" where
  "start w environ =
     [Printed (Sprintln [''Finding tools...'']),
      Found environ (version_Current_Major w)
        (tools_FindTools w environ (version_Current_Major w))]"

definition closing :: "ToolsMetadataCommand \<Rightarrow> event list" where
  "closing c = (if metadataDir c \<noteq> '''' then [Closed] else [])"

definition directory :: "world \<Rightarrow> ToolsMetadataCommand \<Rightarrow> string" where
  "directory w c =
     (if metadataDir c \<noteq> '''' then utils_NormalizePath w (metadataDir c) else '''')"

definition announce :: "string \<Rightarrow> storage \<Rightarrow> string \<Rightarrow> string \<Rightarrow> event list" where
  "announce dir s p a =
     (if dir \<noteq> '''' then [] else [Resolved s p (Inr a)])
     @ [Printed (''Writing '' @ a @ [newline])]"

text \<open>
  The error a logged call answered with, if it failed; and how a logged call ends the
  run, if it does: a failed call makes \<open>Run\<close> return its error, a URL parsed to an empty
  path makes it panic.
\<close>

fun failed :: "event \<Rightarrow> error option" where
  "failed (Found environ major (Inl e)) = Some e"
| "failed (Parsed s (Inl e)) = Some e"
| "failed (Fetched s got) = fetch_error got"
| "failed (Marshalled ms (Inl e)) = Some e"
| "failed (Resolved s p (Inl e)) = Some e"
| "failed (Put s p d n (Some e)) = Some e"
| "failed _ = None"

fun stops :: "event \<Rightarrow> outcome option" where
  "stops (Parsed s (Inr u)) = (if url_Path u = [] then Some Panic else None)"
| "stops ev = (case failed ev of Some e \<Rightarrow> Some (Return (Some e)) | None \<Rightarrow> None)"

text \<open>The fetches a trace holds, each as the URL and the answer of \<open>http.Get\<close>.\<close>

fun fetch_of :: "event \<Rightarrow> (string \<times> (error + Response)) list" where
  "fetch_of (Fetched u g) = [(u, g)]"
| "fetch_of _ = []"

definition fetched :: "event list \<Rightarrow> (string \<times> (error + Response)) list" where
  "fetched tr = concat (map fetch_of tr)"

subsection \<open>A concrete world\<close>

text \<open>
  One candidate, as in the scenario of the specification: its archive is 42 bytes long
  and the server delivers it in two reads. The digest is a stand-in (the length of the
  content, then a fixed byte), the marshaller returns two fixed documents, every call
  succeeds. The other worlds change one collaborator each.
\<close>

definition tools_1_2_3 :: Tools where
  "tools_1_2_3 =
     \<lparr>tools_Version =
        \<lparr>bin_Number = \<lparr>Major = 1, Minor = 2, Patch = 3, Build = 0\<rparr>,
         bin_Series = ''ubuntu'', bin_Arch = ''amd64''\<rparr>,
      tools_URL = ''https://host/tools/1.2.3/ubuntu-amd64.tar.gz''\<rparr>"

definition parse_example :: "string \<Rightarrow> error + URL" where
  "parse_example s =
     (if s = ''https://host/tools/1.2.3/ubuntu-amd64.tar.gz'' then
        Inr \<lparr>url_Scheme = ''https'', url_Host = ''host'',
             url_Path = ''/tools/1.2.3/ubuntu-amd64.tar.gz''\<rparr>
      else if s = ''https://host//tools/1.2.3/ubuntu-amd64.tar.gz'' then
        Inr \<lparr>url_Scheme = ''https'', url_Host = ''host'',
             url_Path = ''//tools/1.2.3/ubuntu-amd64.tar.gz''\<rparr>
      else if s = ''https://host'' then
        Inr \<lparr>url_Scheme = ''https'', url_Host = ''host'', url_Path = ''''\<rparr>
      else if s = ''https://mirror/tools/1.2.3/ubuntu-i386.tar.gz'' then
        Inr \<lparr>url_Scheme = ''https'', url_Host = ''mirror'',
             url_Path = ''/tools/1.2.3/ubuntu-i386.tar.gz''\<rparr>
      else Inl (Error ''parse''))"

definition archive :: body where
  "archive = Chunk (replicate 40 0x61) (Chunk [0x62, 0x63] EOF)"

definition world0 :: world where
  "world0 =
     \<lparr>environs_NewFromName = (\<lambda>name. Inr (Environ name)),
      utils_NormalizePath = (\<lambda>dir. dir),
      localstorage_Serve = (\<lambda>addr dir. Inr ''127.0.0.1:40123''),
      version_Current_Major = 1,
      tools_FindTools = (\<lambda>environ major. Inr [tools_1_2_3]),
      url_Parse = parse_example,
      Number_String = (\<lambda>n. ''1.2.3''),
      http_Get = (\<lambda>tr url. Inr \<lparr>StatusCode = 200, Body = archive\<rparr>),
      sha256_Sum = (\<lambda>bs. [of_nat (length bs), 0xD0]),
      tools_MarshalToolsMetadataJSON = (\<lambda>ms. Inr ([0x69], [0x70])),
      simplestreams_DefaultIndexPath = ''streams/v1/index'',
      simplestreams_UnsignedSuffix = ''.json'',
      tools_ProductMetadataPath = ''streams/v1/com.ubuntu.juju:released:tools.json'',
      filepath_Join = (\<lambda>dir p. dir @ ''/'' @ p),
      Storage_URL = (\<lambda>tr s p. Inr (''https://store/'' @ p)),
      Storage_Put = (\<lambda>tr s p d n. None)\<rparr>"

definition fetching :: ToolsMetadataCommand where
  "fetching = \<lparr>EnvName = ''ec2'', fetch = True, metadataDir = ''''\<rparr>"

definition not_fetching :: ToolsMetadataCommand where
  "not_fetching = \<lparr>EnvName = ''ec2'', fetch = False, metadataDir = ''''\<rparr>"

definition to_directory :: ToolsMetadataCommand where
  "to_directory = \<lparr>EnvName = ''ec2'', fetch = False, metadataDir = ''/tmp/out''\<rparr>"

definition marshal_fails :: world where
  "marshal_fails =
     world0\<lparr>tools_MarshalToolsMetadataJSON := (\<lambda>ms. Inl (Error ''encoding''))\<rparr>"

definition tools_i386 :: Tools where
  "tools_i386 =
     \<lparr>tools_Version =
        \<lparr>bin_Number = \<lparr>Major = 1, Minor = 2, Patch = 3, Build = 0\<rparr>,
         bin_Series = ''ubuntu'', bin_Arch = ''i386''\<rparr>,
      tools_URL = ''https://mirror/tools/1.2.3/ubuntu-i386.tar.gz''\<rparr>"

text \<open>Three candidates; the request for the second one fails.\<close>

definition mirror_down :: world where
  "mirror_down =
     world0
       \<lparr>tools_FindTools := (\<lambda>environ major. Inr [tools_1_2_3, tools_i386, tools_1_2_3]),
        http_Get := (\<lambda>tr url.
          if url = ''https://mirror/tools/1.2.3/ubuntu-i386.tar.gz''
          then Inl (Error ''connection refused'')
          else Inr \<lparr>StatusCode = 200, Body = archive\<rparr>)\<rparr>"

text \<open>One candidate whose URL has a host and no path.\<close>

definition no_path :: world where
  "no_path =
     world0
       \<lparr>tools_FindTools := (\<lambda>environ major. Inr [tools_1_2_3\<lparr>tools_URL := ''https://host''\<rparr>])\<rparr>"

text \<open>The storage refuses the products document.\<close>

definition products_refused :: world where
  "products_refused =
     world0
       \<lparr>Storage_Put := (\<lambda>tr s p d n.
          if p = ''tools/streams/v1/com.ubuntu.juju:released:tools.json''
          then Some (Error ''disk full'') else None)\<rparr>"

text \<open>No candidate at all.\<close>

definition no_tools :: world where
  "no_tools = world0\<lparr>tools_FindTools := (\<lambda>environ major. Inr [])\<rparr>"

text \<open>One candidate whose URL has two separators after the host.\<close>

definition double_slash :: world where
  "double_slash =
     world0
       \<lparr>tools_FindTools := (\<lambda>environ major.
          Inr [tools_1_2_3\<lparr>tools_URL := ''https://host//tools/1.2.3/ubuntu-amd64.tar.gz''\<rparr>])\<rparr>"

text \<open>The storage cannot tell the address of an object; and it tells another address.\<close>

definition url_fails :: world where
  "url_fails = world0\<lparr>Storage_URL := (\<lambda>tr s p. Inl (Error ''no URL''))\<rparr>"

definition other_address :: "event list \<Rightarrow> storage \<Rightarrow> string \<Rightarrow> error + string" where
  "other_address tr s p = Inr (''file:///srv/'' @ p)"

section \<open>Properties\<close>

subsection \<open>The shape of a run\<close>

text \<open>
  Each loop only extends the trace, with events of its own kind. A run is therefore the
  start, the events of the first loop, the call of the marshaller, the events of the second
  loop and the close, cut where a call fails: \<open>Run_shape\<close> lists the cases, and
  \<open>put_two_cases\<close> those of the second loop over the two objects.
\<close>

lemma io_Copy_eq: "io_Copy h b = (int (length (body_bytes b)), h @ body_bytes b, body_error b)"
  by (induction b arbitrary: h) auto

lemma fetchToolsHash_trace: "snd (fetchToolsHash w tr url) = tr @ [Fetched url (http_Get w tr url)]"
  by (simp add: fetchToolsHash_def Let_def split: sum.split prod.split)

lemma fetchToolsHash_error:
  "snd (snd (fst (fetchToolsHash w tr url))) = fetch_error (http_Get w tr url)"
  by (simp add: fetchToolsHash_def Let_def io_Copy_eq split: sum.split)

lemma writes_append [simp]: "writes (a @ b) = writes a @ writes b"
  by (simp add: writes_def)

lemma writes_Nil [simp]: "writes [] = []"
  by (simp add: writes_def)

lemma writes_Cons [simp]: "writes (e # tr) = write_of e @ writes tr"
  by (simp add: writes_def)

lemma candidate_trace:
  "candidate w f t tr = (r, tr') \<Longrightarrow> \<exists>evs. tr' = tr @ evs \<and> (\<forall>e\<in>set evs. loop_event e)"
  by (auto simp: candidate_def Let_def fetchToolsHash_def split: sum.splits if_splits prod.splits option.splits)


lemma assemble_trace:
  "assemble w f ts tr = (r, tr') \<Longrightarrow> \<exists>evs. tr' = tr @ evs \<and> (\<forall>e\<in>set evs. loop_event e)"
proof (induction ts arbitrary: tr r tr')
  case Nil
  then show ?case by simp
next
  case (Cons t ts)
  obtain r1 tr1 where c: "candidate w f t tr = (r1, tr1)" by (cases "candidate w f t tr")
  from candidate_trace [OF c] obtain evs1 where e1: "tr1 = tr @ evs1" "\<forall>e\<in>set evs1. loop_event e"
    by blast
  show ?case
  proof (cases r1)
    case (Inl out)
    with Cons.prems c e1 show ?thesis by auto
  next
    case (Inr m)
    obtain r2 tr2 where a: "assemble w f ts tr1 = (r2, tr2)" by (cases "assemble w f ts tr1")
    from Cons.IH [OF a] obtain evs2 where e2: "tr2 = tr1 @ evs2" "\<forall>e\<in>set evs2. loop_event e"
      by blast
    from Cons.prems c Inr a have "tr' = tr2" by (auto split: sum.splits)
    with e1 e2 show ?thesis by auto
  qed
qed

lemma put_object_trace:
  "put_object w dir environ err ob tr = (r, tr') \<Longrightarrow>
   \<exists>evs. tr' = tr @ evs \<and> (\<forall>e\<in>set evs. publish_event e)"
  by (auto simp: put_object_def Let_def split: if_splits sum.splits option.splits)

lemma put_objects_trace:
  "put_objects w dir environ err objs tr = (r, tr') \<Longrightarrow>
   \<exists>evs. tr' = tr @ evs \<and> (\<forall>e\<in>set evs. publish_event e)"
proof (induction objs arbitrary: tr err r tr')
  case Nil
  then show ?case by simp
next
  case (Cons ob objs)
  obtain r1 tr1 where c: "put_object w dir environ err ob tr = (r1, tr1)"
    by (cases "put_object w dir environ err ob tr")
  from put_object_trace [OF c] obtain evs1 where e1: "tr1 = tr @ evs1" "\<forall>e\<in>set evs1. publish_event e"
    by blast
  show ?case
  proof (cases r1)
    case (Inl e)
    with Cons.prems c e1 show ?thesis by auto
  next
    case (Inr err')
    with Cons.prems c have a: "put_objects w dir environ err' objs tr1 = (r, tr')" by simp
    from Cons.IH [OF a] obtain evs2 where e2: "tr' = tr1 @ evs2" "\<forall>e\<in>set evs2. publish_event e"
      by blast
    with e1 show ?thesis by auto
  qed
qed

lemma generate_cases [consumes 1, case_names find_failed loop_failed marshal_failed published]:
  assumes "generate w f dir environ = (out, tr)"
  obtains
    (find_failed) e where
      "tools_FindTools w environ (version_Current_Major w) = Inl e"
      "out = Return (Some e)" "tr = start w environ"
  | (loop_failed) ts where
      "tools_FindTools w environ (version_Current_Major w) = Inr ts"
      "assemble w f ts (start w environ) = (Inl out, tr)"
  | (marshal_failed) ts md tr1 e where
      "tools_FindTools w environ (version_Current_Major w) = Inr ts"
      "assemble w f ts (start w environ) = (Inr md, tr1)"
      "tools_MarshalToolsMetadataJSON w md = Inl e"
      "out = Return (Some e)" "tr = tr1 @ [Marshalled md (Inl e)]"
  | (published) ts md tr1 idx prod err where
      "tools_FindTools w environ (version_Current_Major w) = Inr ts"
      "assemble w f ts (start w environ) = (Inr md, tr1)"
      "tools_MarshalToolsMetadataJSON w md = Inr (idx, prod)"
      "put_objects w dir environ None [(index_path w, idx), (products_path w, prod)]
         (tr1 @ [Marshalled md (Inr (idx, prod))]) = (err, tr)"
      "out = Return err"
  using assms unfolding generate_def start_def Let_def
  by (auto split: sum.splits prod.splits)

lemma generate_shape [consumes 1, case_names find_failed loop_failed marshal_failed published]:
  assumes "generate w f dir environ = (out, tr)"
  obtains
    (find_failed) e where
      "tools_FindTools w environ (version_Current_Major w) = Inl e"
      "out = Return (Some e)" "tr = start w environ"
  | (loop_failed) ts evs where
      "tools_FindTools w environ (version_Current_Major w) = Inr ts"
      "assemble w f ts (start w environ) = (Inl out, start w environ @ evs)"
      "\<forall>e\<in>set evs. loop_event e"
      "tr = start w environ @ evs"
  | (marshal_failed) ts md evs e where
      "tools_FindTools w environ (version_Current_Major w) = Inr ts"
      "assemble w f ts (start w environ) = (Inr md, start w environ @ evs)"
      "\<forall>e\<in>set evs. loop_event e"
      "tools_MarshalToolsMetadataJSON w md = Inl e"
      "out = Return (Some e)" "tr = start w environ @ evs @ [Marshalled md (Inl e)]"
  | (published) ts md evs idx prod err pevs where
      "tools_FindTools w environ (version_Current_Major w) = Inr ts"
      "assemble w f ts (start w environ) = (Inr md, start w environ @ evs)"
      "\<forall>e\<in>set evs. loop_event e"
      "tools_MarshalToolsMetadataJSON w md = Inr (idx, prod)"
      "put_objects w dir environ None [(index_path w, idx), (products_path w, prod)]
         (start w environ @ evs @ [Marshalled md (Inr (idx, prod))])
       = (err, (start w environ @ evs @ [Marshalled md (Inr (idx, prod))]) @ pevs)"
      "\<forall>e\<in>set pevs. publish_event e"
      "out = Return err"
      "tr = start w environ @ evs @ [Marshalled md (Inr (idx, prod))] @ pevs"
  using assms
proof (cases rule: generate_cases)
  case (find_failed e)
  then show ?thesis using that(1) by blast
next
  case (loop_failed ts)
  from assemble_trace [OF loop_failed(2)] obtain evs where
    "tr = start w environ @ evs" "\<forall>e\<in>set evs. loop_event e" by blast
  with loop_failed show ?thesis using that(2) by blast
next
  case (marshal_failed ts md tr1 e)
  from assemble_trace [OF marshal_failed(2)] obtain evs where
    "tr1 = start w environ @ evs" "\<forall>e\<in>set evs. loop_event e" by blast
  with marshal_failed show ?thesis using that(3) [of ts md evs e] by simp
next
  case (published ts md tr1 idx prod err)
  from assemble_trace [OF published(2)] obtain evs where
    e1: "tr1 = start w environ @ evs" "\<forall>e\<in>set evs. loop_event e" by blast
  from put_objects_trace [OF published(4)] obtain pevs where
    e2: "tr = (tr1 @ [Marshalled md (Inr (idx, prod))]) @ pevs" "\<forall>e\<in>set pevs. publish_event e"
    by blast
  show ?thesis
    using that(4) [of ts md evs idx prod err pevs] published e1 e2 by simp
qed


lemma Run_shape [consumes 1, case_names setup_failed find_failed loop_failed marshal_failed published]:
  assumes "Run w c = (out, tr)"
  obtains
    (setup_failed) e where "out = Return (Some e)" "tr = []"
      "environs_NewFromName w (EnvName c) = Inl e \<or>
       (\<exists>environ. environs_NewFromName w (EnvName c) = Inr environ \<and> metadataDir c \<noteq> '''' \<and>
          localstorage_Serve w ''127.0.0.1:0'' (utils_NormalizePath w (metadataDir c)) = Inl e)"
  | (find_failed) environ e where
      "tools_FindTools w environ (version_Current_Major w) = Inl e"
      "out = Return (Some e)" "tr = start w environ @ closing c"
  | (loop_failed) environ ts evs where
      "tools_FindTools w environ (version_Current_Major w) = Inr ts"
      "assemble w (fetch c) ts (start w environ) = (Inl out, start w environ @ evs)"
      "\<forall>e\<in>set evs. loop_event e"
      "tr = start w environ @ evs @ closing c"
  | (marshal_failed) environ ts md evs e where
      "tools_FindTools w environ (version_Current_Major w) = Inr ts"
      "assemble w (fetch c) ts (start w environ) = (Inr md, start w environ @ evs)"
      "\<forall>e\<in>set evs. loop_event e"
      "tools_MarshalToolsMetadataJSON w md = Inl e"
      "out = Return (Some e)"
      "tr = start w environ @ evs @ Marshalled md (Inl e) # closing c"
  | (published) environ ts md evs idx prod err pevs where
      "tools_FindTools w environ (version_Current_Major w) = Inr ts"
      "assemble w (fetch c) ts (start w environ) = (Inr md, start w environ @ evs)"
      "\<forall>e\<in>set evs. loop_event e"
      "tools_MarshalToolsMetadataJSON w md = Inr (idx, prod)"
      "put_objects w (directory w c) environ None
         [(index_path w, idx), (products_path w, prod)]
         (start w environ @ evs @ [Marshalled md (Inr (idx, prod))])
       = (err, (start w environ @ evs @ [Marshalled md (Inr (idx, prod))]) @ pevs)"
      "\<forall>e\<in>set pevs. publish_event e"
      "out = Return err"
      "tr = start w environ @ evs @ Marshalled md (Inr (idx, prod)) # pevs @ closing c"
proof -
  consider
    (a) e where "out = Return (Some e)" "tr = []"
      "environs_NewFromName w (EnvName c) = Inl e \<or>
       (\<exists>environ. environs_NewFromName w (EnvName c) = Inr environ \<and> metadataDir c \<noteq> '''' \<and>
          localstorage_Serve w ''127.0.0.1:0'' (utils_NormalizePath w (metadataDir c)) = Inl e)"
  | (b) environ tr' where
      "generate w (fetch c) (directory w c) environ = (out, tr')" "tr = tr' @ closing c"
    using assms unfolding Run_def Let_def directory_def closing_def
    by (auto split: sum.splits prod.splits if_splits)
  then show ?thesis
  proof cases
    case a
    then show ?thesis using that(1) by blast
  next
    case b
    from b(1) show ?thesis
    proof (cases rule: generate_shape)
      case (find_failed e)
      with b(2) show ?thesis using that(2) by blast
    next
      case (loop_failed ts evs)
      with b(2) show ?thesis using that(3) [of environ ts evs] by simp
    next
      case (marshal_failed ts md evs e)
      with b(2) show ?thesis using that(4) [of environ ts md evs e] by simp
    next
      case (published ts md evs idx prod err pevs)
      with b(2) show ?thesis using that(5) [of environ ts md evs idx prod err pevs] by simp
    qed
  qed
qed


lemma put_object_cases [consumes 1, case_names resolve_failed put_failed put_done]:
  assumes "put_object w dir environ None (p, d) tr = (r, tr')"
  obtains
    (resolve_failed) e where
      "dir = ''''" "r = Inl e" "tr' = tr @ [Resolved (Storage environ) p (Inl e)]"
  | (put_failed) a e where
      "dir \<noteq> '''' \<longrightarrow> a = filepath_Join w dir p" "r = Inl e"
      "tr' = tr @ announce dir (Storage environ) p a
         @ [Put (Storage environ) p d (int (length d)) (Some e)]"
  | (put_done) a where
      "dir \<noteq> '''' \<longrightarrow> a = filepath_Join w dir p" "r = Inr None"
      "tr' = tr @ announce dir (Storage environ) p a
         @ [Put (Storage environ) p d (int (length d)) None]"
proof (cases "dir = ''''")
  case True
  show ?thesis
  proof (cases "Storage_URL w tr (Storage environ) p")
    case (Inl e)
    with assms True show ?thesis using that(1) [of e] by (simp add: put_object_def Let_def)
  next
    case (Inr a)
    let ?tr2 = "tr @ announce dir (Storage environ) p a"
    have tr2: "?tr2 = (tr @ [Resolved (Storage environ) p (Inr a)]) @ [Printed (''Writing '' @ a @ [newline])]"
      using True by (simp add: announce_def)
    show ?thesis
    proof (cases "Storage_Put w ?tr2 (Storage environ) p d (int (length d))")
      case None
      with assms True Inr tr2 show ?thesis using that(3) [of a]
        by (simp add: put_object_def Let_def)
    next
      case (Some e)
      with assms True Inr tr2 show ?thesis using that(2) [of a e]
        by (simp add: put_object_def Let_def)
    qed
  qed
next
  case False
  let ?a = "filepath_Join w dir p"
  let ?tr2 = "tr @ announce dir (Storage environ) p ?a"
  have tr2: "?tr2 = tr @ [Printed (''Writing '' @ ?a @ [newline])]"
    using False by (simp add: announce_def)
  show ?thesis
  proof (cases "Storage_Put w ?tr2 (Storage environ) p d (int (length d))")
    case None
    with assms False tr2 show ?thesis using that(3) [of ?a]
      by (simp add: put_object_def Let_def)
  next
    case (Some e)
    with assms False tr2 show ?thesis using that(2) [of ?a e]
      by (simp add: put_object_def Let_def)
  qed
qed


lemma put_two_cases [consumes 1,
    case_names resolve1_failed put1_failed resolve2_failed put2_failed both]:
  assumes "put_objects w dir environ None [(p1, d1), (p2, d2)] tr0 = (err, tr0 @ pevs)"
  obtains
    (resolve1_failed) e where
      "dir = []" "err = Some e" "pevs = [Resolved (Storage environ) p1 (Inl e)]"
  | (put1_failed) a1 e where
      "dir \<noteq> [] \<longrightarrow> a1 = filepath_Join w dir p1" "err = Some e"
      "pevs = announce dir (Storage environ) p1 a1
         @ [Put (Storage environ) p1 d1 (int (length d1)) (Some e)]"
  | (resolve2_failed) a1 e where
      "dir = []" "err = Some e"
      "pevs = announce dir (Storage environ) p1 a1
         @ [Put (Storage environ) p1 d1 (int (length d1)) None,
            Resolved (Storage environ) p2 (Inl e)]"
  | (put2_failed) a1 a2 e where
      "dir \<noteq> [] \<longrightarrow> a1 = filepath_Join w dir p1 \<and> a2 = filepath_Join w dir p2"
      "err = Some e"
      "pevs = announce dir (Storage environ) p1 a1
         @ Put (Storage environ) p1 d1 (int (length d1)) None
         # announce dir (Storage environ) p2 a2
         @ [Put (Storage environ) p2 d2 (int (length d2)) (Some e)]"
  | (both) a1 a2 where
      "dir \<noteq> [] \<longrightarrow> a1 = filepath_Join w dir p1 \<and> a2 = filepath_Join w dir p2"
      "err = None"
      "pevs = announce dir (Storage environ) p1 a1
         @ Put (Storage environ) p1 d1 (int (length d1)) None
         # announce dir (Storage environ) p2 a2
         @ [Put (Storage environ) p2 d2 (int (length d2)) None]"
proof -
  obtain r1 tr1 where o1: "put_object w dir environ None (p1, d1) tr0 = (r1, tr1)"
    by (cases "put_object w dir environ None (p1, d1) tr0")
  from o1 show ?thesis
  proof (cases rule: put_object_cases)
    case (resolve_failed e)
    from assms o1 resolve_failed
    have "err = Some e" "pevs = [Resolved (Storage environ) p1 (Inl e)]" by auto
    then show ?thesis using that(1) [OF resolve_failed(1)] by blast
  next
    case (put_failed a e)
    from assms o1 put_failed(2,3)
    have "err = Some e"
      "pevs = announce dir (Storage environ) p1 a
         @ [Put (Storage environ) p1 d1 (int (length d1)) (Some e)]" by auto
    then show ?thesis using that(2) [OF put_failed(1)] by blast
  next
    case first: (put_done a1)
    obtain r2 tr2 where o2: "put_object w dir environ None (p2, d2) tr1 = (r2, tr2)"
      by (cases "put_object w dir environ None (p2, d2) tr1")
    from o2 show ?thesis
    proof (cases rule: put_object_cases)
      case (resolve_failed e)
      from assms o1 o2 first(2,3) resolve_failed
      have "err = Some e"
        "pevs = announce dir (Storage environ) p1 a1
         @ [Put (Storage environ) p1 d1 (int (length d1)) None,
            Resolved (Storage environ) p2 (Inl e)]" by auto
      then show ?thesis using that(3) [OF resolve_failed(1)] by blast
    next
      case (put_failed a2 e)
      from assms o1 o2 first(2,3) put_failed(2,3)
      have "err = Some e"
        "pevs = announce dir (Storage environ) p1 a1
         @ Put (Storage environ) p1 d1 (int (length d1)) None
         # announce dir (Storage environ) p2 a2
         @ [Put (Storage environ) p2 d2 (int (length d2)) (Some e)]" by auto
      moreover from first(1) put_failed(1)
      have "dir \<noteq> [] \<longrightarrow> a1 = filepath_Join w dir p1 \<and> a2 = filepath_Join w dir p2"
        by simp
      ultimately show ?thesis using that(4) by blast
    next
      case (put_done a2)
      from assms o1 o2 first(2,3) put_done(2,3)
      have "err = None"
        "pevs = announce dir (Storage environ) p1 a1
         @ Put (Storage environ) p1 d1 (int (length d1)) None
         # announce dir (Storage environ) p2 a2
         @ [Put (Storage environ) p2 d2 (int (length d2)) None]" by auto
      moreover from first(1) put_done(1)
      have "dir \<noteq> [] \<longrightarrow> a1 = filepath_Join w dir p1 \<and> a2 = filepath_Join w dir p2"
        by simp
      ultimately show ?thesis using that(5) by blast
    qed
  qed
qed

lemma loop_events_only:
  assumes "\<forall>e\<in>set evs. loop_event e"
  shows "Found en mj fd \<notin> set evs" "Marshalled md ms \<notin> set evs" "Resolved s p a \<notin> set evs"
    "Put s p d n r \<notin> set evs" "Closed \<notin> set evs"
  using assms by fastforce+

lemma publish_events_only:
  assumes "\<forall>e\<in>set evs. publish_event e"
  shows "Found en mj fd \<notin> set evs" "Marshalled md ms \<notin> set evs" "Parsed u pr \<notin> set evs"
    "Fetched u got \<notin> set evs" "Closed \<notin> set evs"
  using assms by fastforce+

lemma loop_writes: "\<forall>e\<in>set evs. loop_event e \<Longrightarrow> writes evs = []"
proof (induction evs)
  case Nil
  then show ?case by simp
next
  case (Cons a evs)
  then show ?case by (cases a) auto
qed

lemma start_events [simp]:
  "Marshalled md ms \<notin> set (start w en)" "Fetched u got \<notin> set (start w en)"
  "Parsed u pr \<notin> set (start w en)" "Resolved s p a \<notin> set (start w en)"
  "Put s p d n r \<notin> set (start w en)" "Closed \<notin> set (start w en)"
  "writes (start w en) = []"
  by (simp_all add: start_def)

lemma closing_events [simp]:
  "Marshalled md ms \<notin> set (closing c)" "Fetched u got \<notin> set (closing c)"
  "Parsed u pr \<notin> set (closing c)" "Resolved s p a \<notin> set (closing c)"
  "Put s p d n r \<notin> set (closing c)" "Found en mj fd \<notin> set (closing c)"
  "writes (closing c) = []"
  by (simp_all add: closing_def)

lemma announce_events [simp]:
  "Marshalled md ms \<notin> set (announce dir s p a)" "Fetched u got \<notin> set (announce dir s p a)"
  "Parsed u pr \<notin> set (announce dir s p a)" "Put s' p' d n r \<notin> set (announce dir s p a)"
  "Found en mj fd \<notin> set (announce dir s p a)" "Closed \<notin> set (announce dir s p a)"
  "writes (announce dir s p a) = []"
  by (simp_all add: announce_def)

lemma candidate_fetch_failed_last:
  "candidate w f t tr = (r, tr') \<Longrightarrow> Fetched url got \<in> set tr' \<Longrightarrow> Fetched url got \<notin> set tr \<Longrightarrow>
   fetch_error got = Some e \<Longrightarrow> r = Inl (Return (Some e)) \<and> (\<exists>pre. tr' = pre @ [Fetched url got])"
  by (auto simp: candidate_def Let_def fetchToolsHash_def io_Copy_eq
      split: sum.splits if_splits prod.splits option.splits)

lemma candidate_empty_path_last:
  "candidate w f t tr = (r, tr') \<Longrightarrow> Parsed s (Inr u) \<in> set tr' \<Longrightarrow> Parsed s (Inr u) \<notin> set tr \<Longrightarrow>
   url_Path u = [] \<Longrightarrow> r = Inl Panic \<and> (\<exists>pre. tr' = pre @ [Parsed s (Inr u)])"
  by (auto simp: candidate_def Let_def fetchToolsHash_def io_Copy_eq
      split: sum.splits if_splits prod.splits option.splits)

lemma assemble_fetch_failed_last:
  "assemble w f ts tr = (r, tr') \<Longrightarrow> Fetched url got \<in> set tr' \<Longrightarrow> Fetched url got \<notin> set tr \<Longrightarrow>
   fetch_error got = Some e \<Longrightarrow> r = Inl (Return (Some e)) \<and> (\<exists>pre. tr' = pre @ [Fetched url got])"
proof (induction ts arbitrary: tr r tr')
  case Nil
  then show ?case by simp
next
  case (Cons t ts)
  obtain r1 tr1 where c: "candidate w f t tr = (r1, tr1)" by (cases "candidate w f t tr")
  show ?case
  proof (cases "Fetched url got \<in> set tr1")
    case True
    from candidate_fetch_failed_last [OF c True Cons.prems(3) Cons.prems(4)]
    have "r1 = Inl (Return (Some e))" "\<exists>pre. tr1 = pre @ [Fetched url got]" by blast+
    with Cons.prems(1) c show ?thesis by simp
  next
    case False
    show ?thesis
    proof (cases r1)
      case (Inl out1)
      with Cons.prems c False show ?thesis by simp
    next
      case (Inr m)
      obtain r2 tr2 where a: "assemble w f ts tr1 = (r2, tr2)" by (cases "assemble w f ts tr1")
      with Cons.prems(1) c Inr have eq: "tr' = tr2" by (auto split: sum.splits)
      from Cons.IH [OF a] Cons.prems(2,4) False eq
      have "r2 = Inl (Return (Some e))" "\<exists>pre. tr2 = pre @ [Fetched url got]" by blast+
      with Cons.prems(1) c Inr a show ?thesis by simp
    qed
  qed
qed

lemma assemble_empty_path_last:
  "assemble w f ts tr = (r, tr') \<Longrightarrow> Parsed s (Inr u) \<in> set tr' \<Longrightarrow> Parsed s (Inr u) \<notin> set tr \<Longrightarrow>
   url_Path u = [] \<Longrightarrow> r = Inl Panic \<and> (\<exists>pre. tr' = pre @ [Parsed s (Inr u)])"
proof (induction ts arbitrary: tr r tr')
  case Nil
  then show ?case by simp
next
  case (Cons t ts)
  obtain r1 tr1 where c: "candidate w f t tr = (r1, tr1)" by (cases "candidate w f t tr")
  show ?case
  proof (cases "Parsed s (Inr u) \<in> set tr1")
    case True
    from candidate_empty_path_last [OF c True Cons.prems(3) Cons.prems(4)]
    have "r1 = Inl Panic" "\<exists>pre. tr1 = pre @ [Parsed s (Inr u)]" by blast+
    with Cons.prems(1) c show ?thesis by simp
  next
    case False
    show ?thesis
    proof (cases r1)
      case (Inl out1)
      with Cons.prems c False show ?thesis by simp
    next
      case (Inr m)
      obtain r2 tr2 where a: "assemble w f ts tr1 = (r2, tr2)" by (cases "assemble w f ts tr1")
      with Cons.prems(1) c Inr have eq: "tr' = tr2" by (auto split: sum.splits)
      from Cons.IH [OF a] Cons.prems(2,4) False eq
      have "r2 = Inl Panic" "\<exists>pre. tr2 = pre @ [Parsed s (Inr u)]" by blast+
      with Cons.prems(1) c Inr a show ?thesis by simp
    qed
  qed
qed

lemma candidate_fetches:
  "candidate w f t tr = (r, tr') \<Longrightarrow> Fetched url got \<in> set tr' \<Longrightarrow> Fetched url got \<notin> set tr \<Longrightarrow> f"
  by (auto simp: candidate_def Let_def fetchToolsHash_def
      split: sum.splits if_splits prod.splits option.splits)

lemma assemble_fetches:
  "assemble w f ts tr = (r, tr') \<Longrightarrow> Fetched url got \<in> set tr' \<Longrightarrow> Fetched url got \<notin> set tr \<Longrightarrow> f"
proof (induction ts arbitrary: tr r tr')
  case Nil
  then show ?case by simp
next
  case (Cons t ts)
  obtain r1 tr1 where c: "candidate w f t tr = (r1, tr1)" by (cases "candidate w f t tr")
  show ?case
  proof (cases "Fetched url got \<in> set tr1")
    case True
    from candidate_fetches [OF c True Cons.prems(3)] show ?thesis .
  next
    case False
    with Cons.prems c show ?thesis
      by (auto split: sum.splits prod.splits dest: Cons.IH)
  qed
qed

lemmas run_defs = Run_def generate_def candidate_def fetchToolsHash_def put_object_def
  index_path_def products_path_def pathPrefix_def Sprintln_def newline_def Sprintf_x_def
  hex_byte_def hexdigit_def Let_def writes_def closing_def directory_def

lemmas example_defs = world0_def tools_1_2_3_def tools_i386_def parse_example_def archive_def
  fetching_def not_fetching_def to_directory_def


lemma candidate_abort: "candidate w f t tr = (Inl out, tr') \<Longrightarrow> out \<noteq> Return None"
  by (auto simp: candidate_def Let_def fetchToolsHash_def
      split: sum.splits if_splits prod.splits option.splits)

lemma assemble_abort: "assemble w f ts tr = (Inl out, tr') \<Longrightarrow> out \<noteq> Return None"
proof (induction ts arbitrary: tr tr')
  case Nil
  then show ?case by simp
next
  case (Cons t ts)
  obtain r1 tr1 where c: "candidate w f t tr = (r1, tr1)" by (cases "candidate w f t tr")
  show ?case
  proof (cases r1)
    case (Inl out1)
    with Cons.prems c candidate_abort [of w f t tr out1 tr1] show ?thesis by simp
  next
    case (Inr m)
    obtain r2 tr2 where a: "assemble w f ts tr1 = (r2, tr2)" by (cases "assemble w f ts tr1")
    with Cons.prems c Inr have "r2 = Inl out" by (auto split: sum.splits)
    with a Cons.IH show ?thesis by blast
  qed
qed

lemma assemble_Nil: "assemble w f [] tr = (r, tr') \<Longrightarrow> r = Inr [] \<and> tr' = tr"
  by auto

lemma fetched_append [simp]: "fetched (a @ b) = fetched a @ fetched b"
  by (simp add: fetched_def)

lemma fetched_Nil [simp]: "fetched [] = []"
  by (simp add: fetched_def)

lemma fetched_Cons [simp]: "fetched (e # tr) = fetch_of e @ fetched tr"
  by (simp add: fetched_def)

lemma publish_fetched: "\<forall>e\<in>set evs. publish_event e \<Longrightarrow> fetched evs = []"
proof (induction evs)
  case Nil
  then show ?case by simp
next
  case (Cons a evs)
  then show ?case by (cases a) auto
qed

lemma candidate_path:
  "candidate w f t tr = (Inr m, tr') \<Longrightarrow>
   \<exists>u. url_Parse w (tools_URL t) = Inr u \<and> url_Path u \<noteq> [] \<and> Path m = drop 1 (url_Path u)"
  by (auto simp: candidate_def Let_def fetchToolsHash_def
      split: sum.splits if_splits prod.splits option.splits)

lemma assemble_paths:
  "assemble w f ts tr = (Inr recs, tr') \<Longrightarrow>
   list_all2 (\<lambda>t m. \<exists>u. url_Parse w (tools_URL t) = Inr u \<and> url_Path u \<noteq> [] \<and>
      Path m = drop 1 (url_Path u)) ts recs"
proof (induction ts arbitrary: tr recs tr')
  case Nil
  then show ?case by simp
next
  case (Cons t ts)
  obtain r1 tr1 where c: "candidate w f t tr = (r1, tr1)" by (cases "candidate w f t tr")
  obtain r2 tr2 where a: "assemble w f ts tr1 = (r2, tr2)" by (cases "assemble w f ts tr1")
  from Cons.prems c a obtain m ms where r: "r1 = Inr m" "r2 = Inr ms" "recs = m # ms"
    by (auto split: sum.splits)
  from candidate_path [of w f t tr m tr1] c r(1)
  have "\<exists>u. url_Parse w (tools_URL t) = Inr u \<and> url_Path u \<noteq> [] \<and> Path m = drop 1 (url_Path u)"
    by simp
  moreover from a r(2) have "assemble w f ts tr1 = (Inr ms, tr2)" by simp
  from Cons.IH [OF this]
  have "list_all2 (\<lambda>t m. \<exists>u. url_Parse w (tools_URL t) = Inr u \<and> url_Path u \<noteq> [] \<and>
      Path m = drop 1 (url_Path u)) ts ms" .
  ultimately show ?case using r(3) by simp
qed

lemma candidate_not_fetched:
  "candidate w False t tr = (Inr m, tr') \<Longrightarrow> fetched tr' = fetched tr \<and> Size m = 0 \<and> SHA256 m = []"
  by (auto simp: candidate_def Let_def split: sum.splits if_splits)

lemma assemble_not_fetched:
  "assemble w False ts tr = (Inr recs, tr') \<Longrightarrow>
   fetched tr' = fetched tr \<and> length recs = length ts \<and> (\<forall>m\<in>set recs. Size m = 0 \<and> SHA256 m = [])"
proof (induction ts arbitrary: tr recs tr')
  case Nil
  then show ?case by auto
next
  case (Cons t ts)
  obtain r1 tr1 where c: "candidate w False t tr = (r1, tr1)" by (cases "candidate w False t tr")
  obtain r2 tr2 where a: "assemble w False ts tr1 = (r2, tr2)" by (cases "assemble w False ts tr1")
  from Cons.prems c a obtain m ms where r: "r1 = Inr m" "r2 = Inr ms" "recs = m # ms" "tr' = tr2"
    by (auto split: sum.splits)
  from candidate_not_fetched [of w t tr m tr1] c r(1)
  have 1: "fetched tr1 = fetched tr" "Size m = 0" "SHA256 m = []" by simp_all
  from a r(2,4) have "assemble w False ts tr1 = (Inr ms, tr')" by simp
  from Cons.IH [OF this]
  have 2: "fetched tr' = fetched tr1" "length ms = length ts" "\<forall>m\<in>set ms. Size m = 0 \<and> SHA256 m = []"
    by simp_all
  from 1 2 r(3) show ?case by simp
qed

lemma candidate_fetched:
  "candidate w True t tr = (Inr m, tr') \<Longrightarrow>
   \<exists>resp. fetched tr' = fetched tr @ [(tools_URL t, Inr resp)] \<and> body_error (Body resp) = None \<and>
     Size m = int (length (body_bytes (Body resp))) \<and>
     SHA256 m = Sprintf_x (sha256_Sum w (body_bytes (Body resp)))"
  by (auto simp: candidate_def Let_def fetchToolsHash_def io_Copy_eq
      split: sum.splits if_splits prod.splits option.splits)

lemma assemble_fetched:
  "assemble w True ts tr = (Inr recs, tr') \<Longrightarrow>
   \<exists>fs. fetched tr' = fetched tr @ fs \<and> length recs = length ts \<and> length fs = length ts \<and>
     (\<forall>i<length ts. \<exists>resp. fs ! i = (tools_URL (ts ! i), Inr resp) \<and>
        body_error (Body resp) = None \<and>
        Size (recs ! i) = int (length (body_bytes (Body resp))) \<and>
        SHA256 (recs ! i) = Sprintf_x (sha256_Sum w (body_bytes (Body resp))))"
proof (induction ts arbitrary: tr recs tr')
  case Nil
  then show ?case by auto
next
  case (Cons t ts)
  obtain r1 tr1 where c: "candidate w True t tr = (r1, tr1)" by (cases "candidate w True t tr")
  obtain r2 tr2 where a: "assemble w True ts tr1 = (r2, tr2)" by (cases "assemble w True ts tr1")
  from Cons.prems c a obtain m ms where r: "r1 = Inr m" "r2 = Inr ms" "recs = m # ms" "tr' = tr2"
    by (auto split: sum.splits)
  from candidate_fetched [of w t tr m tr1] c r(1) obtain resp where
    1: "fetched tr1 = fetched tr @ [(tools_URL t, Inr resp)]" "body_error (Body resp) = None"
      "Size m = int (length (body_bytes (Body resp)))"
      "SHA256 m = Sprintf_x (sha256_Sum w (body_bytes (Body resp)))"
    by auto
  from a r(2,4) have "assemble w True ts tr1 = (Inr ms, tr')" by simp
  from Cons.IH [OF this] obtain fs where
    2: "fetched tr' = fetched tr1 @ fs" "length ms = length ts" "length fs = length ts"
      "\<forall>i<length ts. \<exists>resp. fs ! i = (tools_URL (ts ! i), Inr resp) \<and>
        body_error (Body resp) = None \<and>
        Size (ms ! i) = int (length (body_bytes (Body resp))) \<and>
        SHA256 (ms ! i) = Sprintf_x (sha256_Sum w (body_bytes (Body resp)))"
    by auto
  let ?fs = "(tools_URL t, Inr resp) # fs"
  have "fetched tr' = fetched tr @ ?fs" using 1(1) 2(1) by simp
  moreover have "length recs = length (t # ts)" "length ?fs = length (t # ts)"
    using r(3) 2(2,3) by simp_all
  moreover have "\<forall>i<length (t # ts). \<exists>resp. ?fs ! i = (tools_URL ((t # ts) ! i), Inr resp) \<and>
        body_error (Body resp) = None \<and>
        Size (recs ! i) = int (length (body_bytes (Body resp))) \<and>
        SHA256 (recs ! i) = Sprintf_x (sha256_Sum w (body_bytes (Body resp)))"
  proof (intro allI impI)
    fix i assume "i < length (t # ts)"
    then show "\<exists>resp. ?fs ! i = (tools_URL ((t # ts) ! i), Inr resp) \<and>
        body_error (Body resp) = None \<and>
        Size (recs ! i) = int (length (body_bytes (Body resp))) \<and>
        SHA256 (recs ! i) = Sprintf_x (sha256_Sum w (body_bytes (Body resp)))"
      using 1(2,3,4) 2(4) r(3) by (cases i) auto
  qed
  ultimately show ?case by blast
qed

lemma fetched_start [simp]: "fetched (start w en) = []"
  by (simp add: start_def)

lemma fetched_closing [simp]: "fetched (closing c) = []"
  by (simp add: closing_def)

lemma Run_marshalled:
  assumes "Run w c = (out, tr)" and "Found environ major (Inr ts) \<in> set tr"
    and "Marshalled recs docs \<in> set tr"
  obtains evs where
    "assemble w (fetch c) ts (start w environ) = (Inr recs, start w environ @ evs)"
    "fetched tr = fetched (start w environ @ evs)"
  using assms(1)
proof (cases rule: Run_shape)
  case (setup_failed e)
  with assms(2) show ?thesis by simp
next
  case (find_failed en e)
  with assms(3) show ?thesis by simp
next
  case (loop_failed en ts' evs)
  with assms(3) loop_events_only(2) [OF loop_failed(3)] show ?thesis by simp
next
  case (marshal_failed en ts' md evs e)
  note only = loop_events_only [OF marshal_failed(3)]
  from assms(2) marshal_failed(6) only(1)
  have "Found environ major (Inr ts) \<in> set (start w en)" by simp
  with marshal_failed(1) have 1: "en = environ" "ts' = ts" by (simp_all add: start_def)
  from assms(3) marshal_failed(6) only(2) have 2: "md = recs" by simp
  have "fetched tr = fetched (start w environ @ evs)" using marshal_failed(6) 1 by simp
  with marshal_failed(2) 1 2 show ?thesis using that by simp
next
  case (published en ts' md evs idx prod err pevs)
  note only = loop_events_only [OF published(3)]
  note ponly = publish_events_only [OF published(6)]
  from assms(2) published(8) only(1) ponly(1)
  have "Found environ major (Inr ts) \<in> set (start w en)" by simp
  with published(1) have 1: "en = environ" "ts' = ts" by (simp_all add: start_def)
  from assms(3) published(8) only(2) ponly(2) have 2: "md = recs" by simp
  have "fetched tr = fetched (start w environ @ evs)"
    using published(8) 1 publish_fetched [OF published(6)] by simp
  with published(2) 1 2 show ?thesis using that by simp
qed

lemma fetchToolsHash_other_URL:
  "fetchToolsHash (w\<lparr>Storage_URL := g\<rparr>) tr url = fetchToolsHash w tr url"
  by (simp add: fetchToolsHash_def)

lemma candidate_other_URL:
  "candidate (w\<lparr>Storage_URL := g\<rparr>) f t tr = candidate w f t tr"
  by (simp add: candidate_def fetchToolsHash_other_URL Let_def
      cong: sum.case_cong prod.case_cong option.case_cong if_cong)

lemma assemble_other_URL:
  "assemble (w\<lparr>Storage_URL := g\<rparr>) f ts tr = assemble w f ts tr"
  by (induction ts arbitrary: tr)
    (simp_all add: candidate_other_URL cong: sum.case_cong prod.case_cong split: prod.splits sum.splits)

lemma put_object_other_URL:
  assumes put: "\<forall>tr tr' s p d n. writes tr = writes tr' \<longrightarrow>
      Storage_Put w tr s p d n = Storage_Put w tr' s p d n"
    and url: "\<forall>tr s p. \<exists>a. Storage_URL w tr s p = Inr a"
    and url': "\<forall>tr s p. \<exists>a. g tr s p = Inr a"
    and same: "writes tr' = writes tr"
  shows "fst (put_object (w\<lparr>Storage_URL := g\<rparr>) dir environ err ob tr') =
           fst (put_object w dir environ err ob tr) \<and>
         writes (snd (put_object (w\<lparr>Storage_URL := g\<rparr>) dir environ err ob tr')) =
           writes (snd (put_object w dir environ err ob tr))"
proof -
  obtain a where a: "Storage_URL w tr (Storage environ) (fst ob) = Inr a"
    using url by blast
  obtain a' where a': "g tr' (Storage environ) (fst ob) = Inr a'"
    using url' by blast
  let ?n = "int (length (snd ob))"
  have p: "Storage_Put w t' (Storage environ) (fst ob) (snd ob) ?n =
      Storage_Put w t (Storage environ) (fst ob) (snd ob) ?n" if "writes t' = writes t" for t t'
    using put that by blast
  show ?thesis
  proof (cases "dir = []")
    case True
    let ?t = "tr @ [Resolved (Storage environ) (fst ob) (Inr a), Printed (''Writing '' @ a @ [newline])]"
    let ?t' = "tr' @ [Resolved (Storage environ) (fst ob) (Inr a'), Printed (''Writing '' @ a' @ [newline])]"
    have "writes ?t' = writes ?t" using same by simp
    from p [OF this] True a a' same show ?thesis
      by (cases err; cases "Storage_Put w ?t (Storage environ) (fst ob) (snd ob) ?n")
        (simp_all add: put_object_def Let_def)
  next
    case False
    let ?t = "tr @ [Printed (''Writing '' @ filepath_Join w dir (fst ob) @ [newline])]"
    let ?t' = "tr' @ [Printed (''Writing '' @ filepath_Join w dir (fst ob) @ [newline])]"
    have "writes ?t' = writes ?t" using same by simp
    from p [OF this] False same show ?thesis
      by (cases err; cases "Storage_Put w ?t (Storage environ) (fst ob) (snd ob) ?n")
        (simp_all add: put_object_def Let_def)
  qed
qed

lemma put_objects_other_URL:
  assumes put: "\<forall>tr tr' s p d n. writes tr = writes tr' \<longrightarrow>
      Storage_Put w tr s p d n = Storage_Put w tr' s p d n"
    and url: "\<forall>tr s p. \<exists>a. Storage_URL w tr s p = Inr a"
    and url': "\<forall>tr s p. \<exists>a. g tr s p = Inr a"
  shows "writes tr' = writes tr \<Longrightarrow>
         fst (put_objects (w\<lparr>Storage_URL := g\<rparr>) dir environ err obs tr') =
           fst (put_objects w dir environ err obs tr) \<and>
         writes (snd (put_objects (w\<lparr>Storage_URL := g\<rparr>) dir environ err obs tr')) =
           writes (snd (put_objects w dir environ err obs tr))"
proof (induction obs arbitrary: tr tr' err)
  case Nil
  then show ?case by simp
next
  case (Cons ob obs)
  obtain r1 t1 where o: "put_object w dir environ err ob tr = (r1, t1)"
    by (cases "put_object w dir environ err ob tr")
  obtain r1' t1' where o': "put_object (w\<lparr>Storage_URL := g\<rparr>) dir environ err ob tr' = (r1', t1')"
    by (cases "put_object (w\<lparr>Storage_URL := g\<rparr>) dir environ err ob tr'")
  from put_object_other_URL [OF put url url' Cons.prems, of dir environ err ob] o o'
  have e: "r1' = r1" "writes t1' = writes t1" by simp_all
  show ?case
  proof (cases r1)
    case (Inl x)
    with o o' e show ?thesis by simp
  next
    case (Inr err')
    with o o' e Cons.IH [OF e(2), of err'] show ?thesis by simp
  qed
qed

lemma generate_other_URL:
  assumes put: "\<forall>tr tr' s p d n. writes tr = writes tr' \<longrightarrow>
      Storage_Put w tr s p d n = Storage_Put w tr' s p d n"
    and url: "\<forall>tr s p. \<exists>a. Storage_URL w tr s p = Inr a"
    and url': "\<forall>tr s p. \<exists>a. g tr s p = Inr a"
  shows "fst (generate (w\<lparr>Storage_URL := g\<rparr>) f dir environ) = fst (generate w f dir environ) \<and>
         writes (snd (generate (w\<lparr>Storage_URL := g\<rparr>) f dir environ)) =
           writes (snd (generate w f dir environ))"
proof (cases "tools_FindTools w environ (version_Current_Major w)")
  case (Inl e)
  then show ?thesis by (simp add: generate_def)
next
  case (Inr ts)
  let ?tr = "[Printed (Sprintln [''Finding tools...'']), Found environ (version_Current_Major w) (Inr ts)]"
  obtain r tr1 where a: "assemble w f ts ?tr = (r, tr1)" by (cases "assemble w f ts ?tr")
  show ?thesis
  proof (cases r)
    case out: (Inl out)
    with Inr a show ?thesis by (simp add: generate_def assemble_other_URL)
  next
    case md: (Inr md)
    show ?thesis
    proof (cases "tools_MarshalToolsMetadataJSON w md")
      case (Inl e)
      with Inr a md show ?thesis by (simp add: generate_def assemble_other_URL)
    next
      case docs: (Inr docs)
      obtain idx prod where d: "docs = (idx, prod)" by (cases docs)
      let ?tr2 = "tr1 @ [Marshalled md (Inr (idx, prod))]"
      let ?obs = "[(index_path w, idx), (products_path w, prod)]"
      have "fst (put_objects (w\<lparr>Storage_URL := g\<rparr>) dir environ None ?obs ?tr2) =
           fst (put_objects w dir environ None ?obs ?tr2) \<and>
         writes (snd (put_objects (w\<lparr>Storage_URL := g\<rparr>) dir environ None ?obs ?tr2)) =
           writes (snd (put_objects w dir environ None ?obs ?tr2))"
        by (rule put_objects_other_URL [OF put url url']) simp
      moreover obtain e1 t1 where p1: "put_objects w dir environ None ?obs ?tr2 = (e1, t1)"
        by (cases "put_objects w dir environ None ?obs ?tr2")
      moreover obtain e2 t2 where p2:
        "put_objects (w\<lparr>Storage_URL := g\<rparr>) dir environ None ?obs ?tr2 = (e2, t2)"
        by (cases "put_objects (w\<lparr>Storage_URL := g\<rparr>) dir environ None ?obs ?tr2")
      ultimately have e: "e2 = e1" "writes t2 = writes t1" by simp_all
      have g1: "generate w f dir environ = (Return e1, t1)"
        using Inr a md docs d p1 by (simp add: generate_def)
      have ip: "index_path (w\<lparr>Storage_URL := g\<rparr>) = index_path w"
        "products_path (w\<lparr>Storage_URL := g\<rparr>) = products_path w"
        by (simp_all add: index_path_def products_path_def)
      have g2: "generate (w\<lparr>Storage_URL := g\<rparr>) f dir environ = (Return e2, t2)"
        using Inr a md docs d p2 ip by (simp add: generate_def assemble_other_URL)
      from g1 g2 e show ?thesis by simp
    qed
  qed
qed

lemma Run_other_URL:
  assumes put: "\<forall>tr tr' s p d n. writes tr = writes tr' \<longrightarrow>
      Storage_Put w tr s p d n = Storage_Put w tr' s p d n"
    and url: "\<forall>tr s p. \<exists>a. Storage_URL w tr s p = Inr a"
    and url': "\<forall>tr s p. \<exists>a. g tr s p = Inr a"
  shows "fst (Run (w\<lparr>Storage_URL := g\<rparr>) c) = fst (Run w c) \<and>
         writes (snd (Run (w\<lparr>Storage_URL := g\<rparr>) c)) = writes (snd (Run w c))"
proof (cases "environs_NewFromName w (EnvName c)")
  case (Inl e)
  then show ?thesis by (simp add: Run_def)
next
  case (Inr environ)
  show ?thesis
  proof (cases "metadataDir c = []")
    case True
    with Inr generate_other_URL [OF put url url', of "fetch c" "[]" environ]
    show ?thesis by (simp add: Run_def)
  next
    case False
    let ?dir = "utils_NormalizePath w (metadataDir c)"
    show ?thesis
    proof (cases "localstorage_Serve w ''127.0.0.1:0'' ?dir")
      case (Inl e)
      with Inr False show ?thesis by (simp add: Run_def)
    next
      case addr: (Inr addr)
      let ?env = "localdirEnv environ (localstorage_Client addr)"
      obtain o1 t1 where g1: "generate w (fetch c) ?dir ?env = (o1, t1)"
        by (cases "generate w (fetch c) ?dir ?env")
      obtain o2 t2 where g2: "generate (w\<lparr>Storage_URL := g\<rparr>) (fetch c) ?dir ?env = (o2, t2)"
        by (cases "generate (w\<lparr>Storage_URL := g\<rparr>) (fetch c) ?dir ?env")
      from generate_other_URL [OF put url url', of "fetch c" ?dir ?env] g1 g2
      have "o2 = o1" "writes t2 = writes t1" by simp_all
      then show ?thesis using Inr False addr g1 g2
        by (simp add: Run_def)
    qed
  qed
qed

lemma announce_Resolved [simp]:
  "Resolved s p (Inl e) \<notin> set (announce dir s' p' a)"
  "dir \<noteq> [] \<Longrightarrow> Resolved s p r \<notin> set (announce dir s' p' a)"
  by (simp_all add: announce_def)

lemma candidate_ok:
  "candidate w f t tr = (Inr m, tr') \<Longrightarrow> \<exists>evs. tr' = tr @ evs \<and> (\<forall>x\<in>set evs. stops x = None)"
  by (auto simp: candidate_def Let_def fetchToolsHash_def io_Copy_eq
      split: sum.splits if_splits prod.splits option.splits)

lemma candidate_stop:
  assumes "candidate w f t tr = (Inl out, tr')"
  shows "\<exists>pre ev. tr' = tr @ pre @ [ev] \<and> (\<forall>x\<in>set pre. stops x = None) \<and> stops ev = Some out"
proof (cases "url_Parse w (tools_URL t)")
  case (Inl e)
  with assms have "tr' = tr @ [] @ [Parsed (tools_URL t) (Inl e)]" "out = Return (Some e)"
    by (simp_all add: candidate_def Let_def)
  then show ?thesis by (intro exI [of _ "[]"] exI [of _ "Parsed (tools_URL t) (Inl e)"]) simp
next
  case (Inr u)
  show ?thesis
  proof (cases "url_Path u = []")
    case True
    with assms Inr have "tr' = tr @ [] @ [Parsed (tools_URL t) (Inr u)]" "out = Panic"
      by (simp_all add: candidate_def Let_def)
    with True show ?thesis
      by (intro exI [of _ "[]"] exI [of _ "Parsed (tools_URL t) (Inr u)"]) simp
  next
    case False
    let ?pre = "[Parsed (tools_URL t) (Inr u),
      Printed (Sprintln [''Fetching tools to generate hash:'', tools_URL t])]"
    let ?got = "http_Get w (tr @ ?pre) (tools_URL t)"
    from assms Inr False have f: "f"
      by (auto simp: candidate_def Let_def split: if_splits)
    from assms Inr False f
    have "tr' = tr @ ?pre @ [Fetched (tools_URL t) ?got]"
      by (auto simp: candidate_def Let_def fetchToolsHash_def
          split: sum.splits prod.splits option.splits)
    moreover from assms Inr False f
    have "stops (Fetched (tools_URL t) ?got) = Some out"
      by (auto simp: candidate_def Let_def fetchToolsHash_def io_Copy_eq
          split: sum.splits prod.splits option.splits)
    moreover have "\<forall>x\<in>set ?pre. stops x = None" using False by simp
    ultimately show ?thesis by blast
  qed
qed

lemma assemble_ok:
  "assemble w f ts tr = (Inr ms, tr') \<Longrightarrow> \<exists>evs. tr' = tr @ evs \<and> (\<forall>x\<in>set evs. stops x = None)"
proof (induction ts arbitrary: tr ms tr')
  case Nil
  then show ?case by simp
next
  case (Cons t ts)
  obtain r1 tr1 where c: "candidate w f t tr = (r1, tr1)" by (cases "candidate w f t tr")
  obtain r2 tr2 where a: "assemble w f ts tr1 = (r2, tr2)" by (cases "assemble w f ts tr1")
  from Cons.prems c a obtain m ms' where r: "r1 = Inr m" "r2 = Inr ms'" "tr' = tr2"
    by (auto split: sum.splits)
  from c r(1) have "candidate w f t tr = (Inr m, tr1)" by simp
  from candidate_ok [OF this] obtain evs1 where 1: "tr1 = tr @ evs1" "\<forall>x\<in>set evs1. stops x = None"
    by blast
  from a r(2,3) have "assemble w f ts tr1 = (Inr ms', tr')" by simp
  from Cons.IH [OF this] obtain evs2 where 2: "tr' = tr1 @ evs2" "\<forall>x\<in>set evs2. stops x = None"
    by blast
  from 1 2 have "tr' = tr @ (evs1 @ evs2)" "\<forall>x\<in>set (evs1 @ evs2). stops x = None" by auto
  then show ?case by blast
qed

lemma assemble_stop:
  "assemble w f ts tr = (Inl out, tr') \<Longrightarrow>
   \<exists>pre ev. tr' = tr @ pre @ [ev] \<and> (\<forall>x\<in>set pre. stops x = None) \<and> stops ev = Some out"
proof (induction ts arbitrary: tr tr')
  case Nil
  then show ?case by simp
next
  case (Cons t ts)
  obtain r1 tr1 where c: "candidate w f t tr = (r1, tr1)" by (cases "candidate w f t tr")
  show ?case
  proof (cases r1)
    case (Inl out1)
    with Cons.prems c have "candidate w f t tr = (Inl out, tr')" by simp
    from candidate_stop [OF this] show ?thesis .
  next
    case (Inr m)
    with c have "candidate w f t tr = (Inr m, tr1)" by simp
    from candidate_ok [OF this] obtain evs1 where 1: "tr1 = tr @ evs1" "\<forall>x\<in>set evs1. stops x = None"
      by blast
    obtain r2 tr2 where a: "assemble w f ts tr1 = (r2, tr2)" by (cases "assemble w f ts tr1")
    with Cons.prems c Inr have "assemble w f ts tr1 = (Inl out, tr')" by (auto split: sum.splits)
    from Cons.IH [OF this] obtain pre ev where
      2: "tr' = tr1 @ pre @ [ev]" "\<forall>x\<in>set pre. stops x = None" "stops ev = Some out" by blast
    from 1 2 have "tr' = tr @ (evs1 @ pre) @ [ev]" "\<forall>x\<in>set (evs1 @ pre). stops x = None" by auto
    with 2(3) show ?thesis by blast
  qed
qed

lemma stops_start:
  "tools_FindTools w en (version_Current_Major w) = Inr ts \<Longrightarrow> \<forall>x\<in>set (start w en). stops x = None"
  by (simp add: start_def)

lemma stops_announce [simp]: "x \<in> set (announce dir s p a) \<Longrightarrow> stops x = None"
  by (auto simp: announce_def split: if_splits)

lemma stops_closing [simp]: "x \<in> set (closing c) \<Longrightarrow> stops x = None"
  by (auto simp: closing_def split: if_splits)

lemma put_two_resolved:
  assumes "put_objects w [] environ None [(p1, d1), (p2, d2)] tr0 = (err, tr0 @ pevs)"
  shows "(\<exists>r. Resolved (Storage environ) p1 r \<in> set pevs) \<and>
    (\<forall>s p d n r. Put s p d n r \<in> set pevs \<longrightarrow>
       (\<exists>pre a post. pevs = pre @
          [Resolved s p (Inr a), Printed (''Writing '' @ a @ [newline]), Put s p d n r] @ post))"
  using assms
proof (cases rule: put_two_cases)
  case (resolve1_failed e)
  then show ?thesis by simp
next
  case (put1_failed a1 e)
  let ?s = "Storage environ"
  have p: "pevs = [] @ [Resolved ?s p1 (Inr a1), Printed (''Writing '' @ a1 @ [newline]),
      Put ?s p1 d1 (int (length d1)) (Some e)] @ []"
    using put1_failed(3) by (simp add: announce_def)
  have "\<exists>pre a post. pevs = pre @
          [Resolved s p (Inr a), Printed (''Writing '' @ a @ [newline]), Put s p d n r] @ post"
    if "Put s p d n r \<in> set pevs" for s p d n r
  proof -
    from that p have "Put s p d n r = Put ?s p1 d1 (int (length d1)) (Some e)" by simp
    with p show ?thesis by blast
  qed
  moreover have "\<exists>r. Resolved ?s p1 r \<in> set pevs" using p by auto
  ultimately show ?thesis by blast
next
  case (resolve2_failed a1 e)
  let ?s = "Storage environ"
  have p: "pevs = [] @ [Resolved ?s p1 (Inr a1), Printed (''Writing '' @ a1 @ [newline]),
      Put ?s p1 d1 (int (length d1)) None] @ [Resolved ?s p2 (Inl e)]"
    using resolve2_failed(3) by (simp add: announce_def)
  have "\<exists>pre a post. pevs = pre @
          [Resolved s p (Inr a), Printed (''Writing '' @ a @ [newline]), Put s p d n r] @ post"
    if "Put s p d n r \<in> set pevs" for s p d n r
  proof -
    from that p have "Put s p d n r = Put ?s p1 d1 (int (length d1)) None" by simp
    with p show ?thesis by blast
  qed
  moreover have "\<exists>r. Resolved ?s p1 r \<in> set pevs" using p by auto
  ultimately show ?thesis by blast
next
  case (put2_failed a1 a2 e)
  let ?s = "Storage environ"
  let ?one = "[Resolved ?s p1 (Inr a1), Printed (''Writing '' @ a1 @ [newline]),
      Put ?s p1 d1 (int (length d1)) None]"
  let ?two = "[Resolved ?s p2 (Inr a2), Printed (''Writing '' @ a2 @ [newline]),
      Put ?s p2 d2 (int (length d2)) (Some e)]"
  have p1: "pevs = [] @ ?one @ ?two" and p2: "pevs = ?one @ ?two @ []"
    using put2_failed(3) by (simp_all add: announce_def)
  have "\<exists>pre a post. pevs = pre @
          [Resolved s p (Inr a), Printed (''Writing '' @ a @ [newline]), Put s p d n r] @ post"
    if "Put s p d n r \<in> set pevs" for s p d n r
  proof -
    from that p1 have "Put s p d n r = Put ?s p1 d1 (int (length d1)) None \<or>
        Put s p d n r = Put ?s p2 d2 (int (length d2)) (Some e)" by auto
    then show ?thesis
    proof
      assume "Put s p d n r = Put ?s p1 d1 (int (length d1)) None"
      with p1 show ?thesis by blast
    next
      assume "Put s p d n r = Put ?s p2 d2 (int (length d2)) (Some e)"
      with p2 show ?thesis by blast
    qed
  qed
  moreover have "\<exists>r. Resolved ?s p1 r \<in> set pevs" using p1 by auto
  ultimately show ?thesis by blast
next
  case (both a1 a2)
  let ?s = "Storage environ"
  let ?one = "[Resolved ?s p1 (Inr a1), Printed (''Writing '' @ a1 @ [newline]),
      Put ?s p1 d1 (int (length d1)) None]"
  let ?two = "[Resolved ?s p2 (Inr a2), Printed (''Writing '' @ a2 @ [newline]),
      Put ?s p2 d2 (int (length d2)) None]"
  have p1: "pevs = [] @ ?one @ ?two" and p2: "pevs = ?one @ ?two @ []"
    using both(3) by (simp_all add: announce_def)
  have "\<exists>pre a post. pevs = pre @
          [Resolved s p (Inr a), Printed (''Writing '' @ a @ [newline]), Put s p d n r] @ post"
    if "Put s p d n r \<in> set pevs" for s p d n r
  proof -
    from that p1 have "Put s p d n r = Put ?s p1 d1 (int (length d1)) None \<or>
        Put s p d n r = Put ?s p2 d2 (int (length d2)) None" by auto
    then show ?thesis
    proof
      assume "Put s p d n r = Put ?s p1 d1 (int (length d1)) None"
      with p1 show ?thesis by blast
    next
      assume "Put s p d n r = Put ?s p2 d2 (int (length d2)) None"
      with p2 show ?thesis by blast
    qed
  qed
  moreover have "\<exists>r. Resolved ?s p1 r \<in> set pevs" using p1 by auto
  ultimately show ?thesis by blast
qed

lemma Run_resolves_before_writing:
  assumes "Run w c = (out, tr)" and "directory w c = []"
  shows "(\<forall>recs docs. Marshalled recs (Inr docs) \<in> set tr \<longrightarrow>
            (\<exists>s r. Resolved s (index_path w) r \<in> set tr))
    \<and> (\<forall>s p d n r. Put s p d n r \<in> set tr \<longrightarrow>
            (\<exists>pre a post. tr = pre @
               [Resolved s p (Inr a), Printed (''Writing '' @ a @ [newline]), Put s p d n r]
               @ post))"
  using assms(1)
proof (cases rule: Run_shape)
  case (setup_failed e)
  then show ?thesis by simp
next
  case (find_failed environ e)
  then show ?thesis by simp
next
  case (loop_failed environ ts evs)
  with loop_events_only(2,4) [OF loop_failed(3)] show ?thesis by simp
next
  case (marshal_failed environ ts md evs e)
  with loop_events_only(2,4) [OF marshal_failed(3)] show ?thesis by simp
next
  case (published environ ts md evs idx prod err pevs)
  let ?head = "start w environ @ evs @ [Marshalled md (Inr (idx, prod))]"
  have tr: "tr = ?head @ pevs @ closing c" using published(8) by simp
  from published(5) assms(2)
  have "put_objects w [] environ None [(index_path w, idx), (products_path w, prod)] ?head
      = (err, ?head @ pevs)" by simp
  note res = put_two_resolved [OF this]
  from res obtain r where "Resolved (Storage environ) (index_path w) r \<in> set pevs" by blast
  with tr have 1: "\<exists>s r. Resolved s (index_path w) r \<in> set tr" by auto
  have 2: "\<exists>pre a post. tr = pre @
               [Resolved s p (Inr a), Printed (''Writing '' @ a @ [newline]), Put s p d n r]
               @ post"
    if "Put s p d n r \<in> set tr" for s p d n r
  proof -
    from that tr loop_events_only(4) [OF published(3)] have "Put s p d n r \<in> set pevs" by simp
    with res obtain pre a post where "pevs = pre @
          [Resolved s p (Inr a), Printed (''Writing '' @ a @ [newline]), Put s p d n r] @ post"
      by blast
    with tr have "tr = (?head @ pre) @
          [Resolved s p (Inr a), Printed (''Writing '' @ a @ [newline]), Put s p d n r]
          @ (post @ closing c)" by simp
    then show ?thesis by blast
  qed
  from 1 2 show ?thesis by blast
qed

lemma Run_resolution_effects:
  assumes "Run w c = (out, tr)"
  shows "(metadataDir c \<noteq> '''' \<longrightarrow> utils_NormalizePath w (metadataDir c) \<noteq> '''' \<longrightarrow>
            (\<forall>s p r. Resolved s p r \<notin> set tr))
    \<and> (\<forall>s p e. Resolved s p (Inl e) \<in> set tr \<longrightarrow>
            out = Return (Some e) \<and> (\<exists>pre. tr = pre @ Resolved s p (Inl e) # closing c))
    \<and> (\<forall>g. (\<forall>tr tr' s p d n. writes tr = writes tr' \<longrightarrow>
                 Storage_Put w tr s p d n = Storage_Put w tr' s p d n) \<longrightarrow>
             (\<forall>tr s p. \<exists>a. Storage_URL w tr s p = Inr a) \<longrightarrow>
             (\<forall>tr s p. \<exists>a. g tr s p = Inr a) \<longrightarrow>
             fst (Run (w\<lparr>Storage_URL := g\<rparr>) c) = out \<and>
             writes (snd (Run (w\<lparr>Storage_URL := g\<rparr>) c)) = writes tr)"
proof (intro conjI)
  show "metadataDir c \<noteq> '''' \<longrightarrow> utils_NormalizePath w (metadataDir c) \<noteq> '''' \<longrightarrow>
            (\<forall>s p r. Resolved s p r \<notin> set tr)"
  proof (intro impI)
    assume "metadataDir c \<noteq> ''''" "utils_NormalizePath w (metadataDir c) \<noteq> ''''"
    then have dir: "directory w c \<noteq> []" by (simp add: directory_def)
    from assms show "\<forall>s p r. Resolved s p r \<notin> set tr"
    proof (cases rule: Run_shape)
      case (setup_failed e)
      then show ?thesis by simp
    next
      case (find_failed environ e)
      then show ?thesis by simp
    next
      case (loop_failed environ ts evs)
      with loop_events_only(3) [OF loop_failed(3)] show ?thesis by simp
    next
      case (marshal_failed environ ts md evs e)
      with loop_events_only(3) [OF marshal_failed(3)] show ?thesis by simp
    next
      case (published environ ts md evs idx prod err pevs)
      note only = loop_events_only(3) [OF published(3)]
      from published(5) have "\<forall>s p r. Resolved s p r \<notin> set pevs"
      proof (cases rule: put_two_cases)
        case (resolve1_failed e)
        with dir show ?thesis by simp
      next
        case (put1_failed a1 e)
        with dir show ?thesis by simp
      next
        case (resolve2_failed a1 e)
        with dir show ?thesis by simp
      next
        case (put2_failed a1 a2 e)
        with dir show ?thesis by simp
      next
        case (both a1 a2)
        with dir show ?thesis by simp
      qed
      with published(8) only show ?thesis by simp
    qed
  qed
next
  show "\<forall>s p e. Resolved s p (Inl e) \<in> set tr \<longrightarrow>
            out = Return (Some e) \<and> (\<exists>pre. tr = pre @ Resolved s p (Inl e) # closing c)"
  proof (intro allI impI)
    fix s p e
    assume r: "Resolved s p (Inl e) \<in> set tr"
    from assms show "out = Return (Some e) \<and> (\<exists>pre. tr = pre @ Resolved s p (Inl e) # closing c)"
    proof (cases rule: Run_shape)
      case (setup_failed e')
      with r show ?thesis by simp
    next
      case (find_failed environ e')
      with r show ?thesis by simp
    next
      case (loop_failed environ ts evs)
      with r loop_events_only(3) [OF loop_failed(3)] show ?thesis by simp
    next
      case (marshal_failed environ ts md evs e')
      with r loop_events_only(3) [OF marshal_failed(3)] show ?thesis by simp
    next
      case (published environ ts md evs idx prod err pevs)
      from r published(8) loop_events_only(3) [OF published(3)]
      have rp: "Resolved s p (Inl e) \<in> set pevs" by simp
      let ?pre = "start w environ @ evs @ [Marshalled md (Inr (idx, prod))]"
      from published(5) show ?thesis
      proof (cases rule: put_two_cases)
        case (resolve1_failed e')
        with rp have eq: "Resolved s p (Inl e) = Resolved (Storage environ) (index_path w) (Inl e')"
          by simp
        then have "e' = e" by simp
        moreover have "tr = ?pre @ Resolved s p (Inl e) # closing c"
          using published(8) resolve1_failed(3) eq by simp
        ultimately show ?thesis using published(7) resolve1_failed(2) by blast
      next
        case (put1_failed a1 e')
        with rp show ?thesis by simp
      next
        case (resolve2_failed a1 e')
        with rp have eq: "Resolved s p (Inl e) = Resolved (Storage environ) (products_path w) (Inl e')"
          by simp
        then have "e' = e" by simp
        moreover have "tr = (?pre @ announce (directory w c) (Storage environ) (index_path w) a1
            @ [Put (Storage environ) (index_path w) idx (int (length idx)) None])
            @ Resolved s p (Inl e) # closing c"
          using published(8) resolve2_failed(3) eq by simp
        ultimately show ?thesis using published(7) resolve2_failed(2) by blast
      next
        case (put2_failed a1 a2 e')
        with rp show ?thesis by simp
      next
        case (both a1 a2)
        with rp show ?thesis by simp
      qed
    qed
  qed
next
  show "\<forall>g. (\<forall>tr tr' s p d n. writes tr = writes tr' \<longrightarrow>
                 Storage_Put w tr s p d n = Storage_Put w tr' s p d n) \<longrightarrow>
             (\<forall>tr s p. \<exists>a. Storage_URL w tr s p = Inr a) \<longrightarrow>
             (\<forall>tr s p. \<exists>a. g tr s p = Inr a) \<longrightarrow>
             fst (Run (w\<lparr>Storage_URL := g\<rparr>) c) = out \<and>
             writes (snd (Run (w\<lparr>Storage_URL := g\<rparr>) c)) = writes tr"
  proof (intro allI impI)
    fix g :: "event list \<Rightarrow> storage \<Rightarrow> string \<Rightarrow> error + string"
    assume put: "\<forall>tr tr' s p d n. writes tr = writes tr' \<longrightarrow>
        Storage_Put w tr s p d n = Storage_Put w tr' s p d n"
      and url: "\<forall>tr s p. \<exists>a. Storage_URL w tr s p = Inr a"
      and url': "\<forall>tr s p. \<exists>a. g tr s p = Inr a"
    from Run_other_URL [OF put url url', of c] assms
    show "fst (Run (w\<lparr>Storage_URL := g\<rparr>) c) = out \<and>
        writes (snd (Run (w\<lparr>Storage_URL := g\<rparr>) c)) = writes tr"
      by simp
  qed
qed

subsection \<open>fetchToolsHash\<close>

text \<open>
  C10. \<open>fetchToolsHash\<close> returns an error only when the request fails (the error of
  \<open>http.Get\<close>) or when reading the body fails (the read error). Its result does not
  depend on the status code of the response: whatever the status, a body that is read
  to its end gives the number of its bytes, a hash that has been fed exactly these bytes,
  and no error.
\<close>

theorem fetchToolsHash_result:
  "fst (fetchToolsHash w tr url) =
     (case http_Get w tr url of
        Inl e \<Rightarrow> (0, None, Some e)
      | Inr resp \<Rightarrow>
          (int (length (body_bytes (Body resp))), Some (body_bytes (Body resp)),
           body_error (Body resp)))"
  by (simp add: fetchToolsHash_def Let_def io_Copy_eq split: sum.split)

subsection \<open>Failures before publishing\<close>

text \<open>
  C3. If a fetch fails (the request, or the reading of the body) for any candidate that
  \<open>Run\<close> reaches, then fetching is enabled, \<open>Run\<close> returns that error, the marshaller has
  not been called, nothing has been written, and the failed fetch is the last call of the
  run (the deferred close apart): no later candidate is processed.
\<close>

theorem Run_fetch_failure:
  assumes "Run w c = (out, tr)" and "Fetched url got \<in> set tr" and "fetch_error got = Some e"
  shows "fetch c \<and> out = Return (Some e) \<and> (\<forall>recs docs. Marshalled recs docs \<notin> set tr) \<and>
    writes tr = [] \<and> (\<exists>pre. tr = pre @ Fetched url got # closing c)"
  using assms(1)
proof (cases rule: Run_shape)
  case (setup_failed e')
  with assms(2) show ?thesis by simp
next
  case (find_failed environ e')
  with assms(2) show ?thesis by simp
next
  case (loop_failed environ ts evs)
  note only = loop_events_only [OF loop_failed(3)]
  from assms(2) loop_failed(4) have el: "Fetched url got \<in> set (start w environ @ evs)" by simp
  have nel: "Fetched url got \<notin> set (start w environ)" by simp
  from assemble_fetch_failed_last [OF loop_failed(2) el nel assms(3)]
  obtain pre where l: "out = Return (Some e)" "start w environ @ evs = pre @ [Fetched url got]"
    by blast
  from l(2) loop_failed(4) have "tr = pre @ Fetched url got # closing c" by simp
  then have "\<exists>pre. tr = pre @ Fetched url got # closing c" by blast
  moreover have "writes tr = []" using loop_failed(4) loop_writes [OF loop_failed(3)] by simp
  moreover have "\<forall>recs docs. Marshalled recs docs \<notin> set tr" using loop_failed(4) only(2) by simp
  moreover have "fetch c" using assemble_fetches [OF loop_failed(2) el nel] .
  ultimately show ?thesis using l(1) by blast
next
  case (marshal_failed environ ts md evs e')
  from assms(2) marshal_failed(6) have el: "Fetched url got \<in> set (start w environ @ evs)" by simp
  have nel: "Fetched url got \<notin> set (start w environ)" by simp
  from assemble_fetch_failed_last [OF marshal_failed(2) el nel assms(3)] show ?thesis by simp
next
  case (published environ ts md evs idx prod err pevs)
  from assms(2) published(8) publish_events_only(4) [OF published(6)]
  have el: "Fetched url got \<in> set (start w environ @ evs)" by simp
  have nel: "Fetched url got \<notin> set (start w environ)" by simp
  from assemble_fetch_failed_last [OF published(2) el nel assms(3)] show ?thesis by simp
qed

theorem Run_fetch_failure_witness:
  "Fetched ''https://mirror/tools/1.2.3/ubuntu-i386.tar.gz'' (Inl (Error ''connection refused''))
     \<in> set (snd (Run mirror_down fetching))
   \<and> fetch_error (Inl (Error ''connection refused'')) = Some (Error ''connection refused'')
   \<and> fst (Run mirror_down fetching) = Return (Some (Error ''connection refused''))
   \<and> writes (snd (Run mirror_down fetching)) = []"
proof -
  have h: "Fetched ''https://mirror/tools/1.2.3/ubuntu-i386.tar.gz''
      (Inl (Error ''connection refused'')) \<in> set (snd (Run mirror_down fetching))"
    by (simp add: run_defs mirror_down_def example_defs)
  have e: "fetch_error (Inl (Error ''connection refused'')) = Some (Error ''connection refused'')"
    by simp
  from Run_fetch_failure [OF prod.collapse [symmetric] h e] h e show ?thesis by simp
qed

text \<open>
  C5. If the marshaller fails, \<open>Run\<close> returns its error and nothing is published: the
  failed call is the last one of the run (the deferred close apart), no address has been
  resolved and the trace holds no write.
\<close>

theorem Run_marshal_failure:
  assumes "Run w c = (out, tr)" and "Marshalled recs (Inl e) \<in> set tr"
  shows "out = Return (Some e) \<and> writes tr = [] \<and>
    (\<exists>pre. tr = pre @ Marshalled recs (Inl e) # closing c \<and> (\<forall>s p a. Resolved s p a \<notin> set pre))"
  using assms(1)
proof (cases rule: Run_shape)
  case (setup_failed e')
  with assms(2) show ?thesis by simp
next
  case (find_failed environ e')
  with assms(2) show ?thesis by simp
next
  case (loop_failed environ ts evs)
  with assms(2) loop_events_only(2) [OF loop_failed(3)] show ?thesis by simp
next
  case (marshal_failed environ ts md evs e')
  note only = loop_events_only [OF marshal_failed(3)]
  from assms(2) marshal_failed(6) only(2) have eq: "recs = md" "e = e'" by auto
  have "tr = (start w environ @ evs) @ Marshalled recs (Inl e) # closing c"
    using marshal_failed(6) eq by simp
  moreover have "\<forall>s p a. Resolved s p a \<notin> set (start w environ @ evs)"
    using only(3) by simp
  ultimately have "\<exists>pre. tr = pre @ Marshalled recs (Inl e) # closing c \<and>
      (\<forall>s p a. Resolved s p a \<notin> set pre)" by blast
  moreover have "writes tr = []"
    using marshal_failed(6) loop_writes [OF marshal_failed(3)] by simp
  ultimately show ?thesis using marshal_failed(5) eq by simp
next
  case (published environ ts md evs idx prod err pevs)
  with assms(2) loop_events_only(2) [OF published(3)] publish_events_only(2) [OF published(6)]
  show ?thesis by simp
qed

theorem Run_marshal_failure_witness:
  "Marshalled
     [\<lparr>Release = ''ubuntu'', Version = ''1.2.3'', Arch = ''amd64'',
       Path = ''tools/1.2.3/ubuntu-amd64.tar.gz'', FileType = ''tar.gz'', Size = 0, SHA256 = ''''\<rparr>]
     (Inl (Error ''encoding'')) \<in> set (snd (Run marshal_fails not_fetching))
   \<and> fst (Run marshal_fails not_fetching) = Return (Some (Error ''encoding''))
   \<and> writes (snd (Run marshal_fails not_fetching)) = []"
proof -
  have h: "Marshalled
     [\<lparr>Release = ''ubuntu'', Version = ''1.2.3'', Arch = ''amd64'',
       Path = ''tools/1.2.3/ubuntu-amd64.tar.gz'', FileType = ''tar.gz'', Size = 0, SHA256 = ''''\<rparr>]
     (Inl (Error ''encoding'')) \<in> set (snd (Run marshal_fails not_fetching))"
    by (simp add: run_defs marshal_fails_def example_defs)
  from Run_marshal_failure [OF prod.collapse [symmetric] h] h show ?thesis by simp
qed

text \<open>
  C9. A candidate whose URL parses to an empty path makes \<open>Run\<close> panic at \<open>u.Path[1:]\<close>:
  the run ends there, with no error value returned, no document marshalled and nothing
  written.
\<close>

theorem Run_empty_path_panics:
  assumes "Run w c = (out, tr)" and "Parsed s (Inr u) \<in> set tr" and "url_Path u = []"
  shows "out = Panic \<and> (\<forall>recs docs. Marshalled recs docs \<notin> set tr) \<and>
    writes tr = [] \<and> (\<exists>pre. tr = pre @ Parsed s (Inr u) # closing c)"
  using assms(1)
proof (cases rule: Run_shape)
  case (setup_failed e')
  with assms(2) show ?thesis by simp
next
  case (find_failed environ e')
  with assms(2) show ?thesis by simp
next
  case (loop_failed environ ts evs)
  note only = loop_events_only [OF loop_failed(3)]
  from assms(2) loop_failed(4) have el: "Parsed s (Inr u) \<in> set (start w environ @ evs)" by simp
  have nel: "Parsed s (Inr u) \<notin> set (start w environ)" by simp
  from assemble_empty_path_last [OF loop_failed(2) el nel assms(3)]
  obtain pre where l: "out = Panic" "start w environ @ evs = pre @ [Parsed s (Inr u)]"
    by blast
  from l(2) loop_failed(4) have "tr = pre @ Parsed s (Inr u) # closing c" by simp
  then have "\<exists>pre. tr = pre @ Parsed s (Inr u) # closing c" by blast
  moreover have "writes tr = []" using loop_failed(4) loop_writes [OF loop_failed(3)] by simp
  moreover have "\<forall>recs docs. Marshalled recs docs \<notin> set tr" using loop_failed(4) only(2) by simp
  ultimately show ?thesis using l(1) by blast
next
  case (marshal_failed environ ts md evs e')
  from assms(2) marshal_failed(6) have el: "Parsed s (Inr u) \<in> set (start w environ @ evs)" by simp
  have nel: "Parsed s (Inr u) \<notin> set (start w environ)" by simp
  from assemble_empty_path_last [OF marshal_failed(2) el nel assms(3)] show ?thesis by simp
next
  case (published environ ts md evs idx prod err pevs)
  from assms(2) published(8) publish_events_only(3) [OF published(6)]
  have el: "Parsed s (Inr u) \<in> set (start w environ @ evs)" by simp
  have nel: "Parsed s (Inr u) \<notin> set (start w environ)" by simp
  from assemble_empty_path_last [OF published(2) el nel assms(3)] show ?thesis by simp
qed

theorem Run_empty_path_panics_witness:
  "Parsed ''https://host'' (Inr \<lparr>url_Scheme = ''https'', url_Host = ''host'', url_Path = ''''\<rparr>)
     \<in> set (snd (Run no_path fetching))
   \<and> fst (Run no_path fetching) = Panic
   \<and> writes (snd (Run no_path fetching)) = []"
proof -
  have h: "Parsed ''https://host'' (Inr \<lparr>url_Scheme = ''https'', url_Host = ''host'', url_Path = ''''\<rparr>)
     \<in> set (snd (Run no_path fetching))"
    by (simp add: run_defs no_path_def example_defs)
  from Run_empty_path_panics [OF prod.collapse [symmetric] h] h show ?thesis by simp
qed

subsection \<open>Publishing\<close>

text \<open>
  C4, as amended. A run ends in one of three ways. Either \<open>Run\<close> returns nil: then every
  call of the run succeeded and the index document and the products document returned by
  the marshaller have both been written, each once. Or the setup fails: \<open>Run\<close> returns the
  error of \<open>environs.NewFromName\<close> or of \<open>localstorage.Serve\<close> before any other call. Or
  the run stops at the first call that fails, or at the first URL that parses to an empty
  path: that call is the last one of the run (the deferred close apart), every call before
  it succeeded, and \<open>Run\<close> returns the error of that call, or panics for the empty path,
  returning no error then. In this last case at most one object has been written with
  success: nothing was written, or the write of the index failed, or the index was written
  and the address of the products document could not be resolved, or the index was
  written and the write of the products document failed. No write is repeated, and the
  index written before a failure stays written: the run makes no other call to the
  storage.
\<close>

theorem Run_outcomes:
  assumes "Run w c = (out, tr)"
  shows
    "(out = Return None \<and> (\<forall>x\<in>set tr. stops x = None) \<and>
        (\<exists>recs idx prod. Marshalled recs (Inr (idx, prod)) \<in> set tr \<and>
           writes tr = [(index_path w, idx, None), (products_path w, prod, None)]))
   \<or> (\<exists>e. out = Return (Some e) \<and> tr = [] \<and>
          (environs_NewFromName w (EnvName c) = Inl e \<or>
           (\<exists>environ. environs_NewFromName w (EnvName c) = Inr environ \<and> metadataDir c \<noteq> '''' \<and>
              localstorage_Serve w ''127.0.0.1:0'' (utils_NormalizePath w (metadataDir c)) = Inl e)))
   \<or> (\<exists>pre ev. tr = pre @ ev # closing c \<and> (\<forall>x\<in>set pre. stops x = None) \<and>
          stops ev = Some out \<and>
          (writes tr = []
           \<or> (\<exists>s idx n e. writes tr = [(index_path w, idx, Some e)] \<and>
                 ev = Put s (index_path w) idx n (Some e) \<and> out = Return (Some e))
           \<or> (\<exists>s idx e. writes tr = [(index_path w, idx, None)] \<and>
                 ev = Resolved s (products_path w) (Inl e) \<and> out = Return (Some e))
           \<or> (\<exists>s idx prod n e.
                 writes tr = [(index_path w, idx, None), (products_path w, prod, Some e)] \<and>
                 ev = Put s (products_path w) prod n (Some e) \<and> out = Return (Some e))))"
    (is "?finished \<or> ?early \<or> ?stopped")
  using assms
proof (cases rule: Run_shape)
  case (setup_failed e)
  then have ?early by (intro exI [of _ e]) simp
  then show ?thesis by simp
next
  case (find_failed environ e)
  let ?pre = "[Printed (Sprintln [''Finding tools...''])]"
  let ?ev = "Found environ (version_Current_Major w) (Inl e)"
  have "tr = ?pre @ ?ev # closing c" using find_failed(1,3) by (simp add: start_def)
  moreover have "\<forall>x\<in>set ?pre. stops x = None" by simp
  moreover have "stops ?ev = Some out" using find_failed(2) by simp
  moreover have "writes tr = []" using find_failed(3) by simp
  ultimately have ?stopped
    by (intro exI [of _ ?pre] exI [of _ ?ev]) simp
  then show ?thesis by simp
next
  case (loop_failed environ ts evs)
  from assemble_stop [OF loop_failed(2)] obtain pre ev where
    s: "evs = pre @ [ev]" "\<forall>x\<in>set pre. stops x = None" "stops ev = Some out" by auto
  let ?pre = "start w environ @ pre"
  have "tr = ?pre @ ev # closing c" using loop_failed(4) s(1) by simp
  moreover have "\<forall>x\<in>set ?pre. stops x = None"
    using stops_start [OF loop_failed(1)] s(2) by auto
  moreover have "writes tr = []" using loop_failed(4) loop_writes [OF loop_failed(3)] by simp
  moreover note s(3)
  ultimately have ?stopped
    by (intro exI [of _ ?pre] exI [of _ ev]) simp
  then show ?thesis by simp
next
  case (marshal_failed environ ts md evs e)
  from assemble_ok [OF marshal_failed(2)] have ok: "\<forall>x\<in>set evs. stops x = None" by auto
  let ?pre = "start w environ @ evs"
  let ?ev = "Marshalled md (Inl e)"
  have "tr = ?pre @ ?ev # closing c"
    using marshal_failed(6) by simp
  moreover have "\<forall>x\<in>set ?pre. stops x = None"
    using stops_start [OF marshal_failed(1)] ok by auto
  moreover have "stops ?ev = Some out" using marshal_failed(5) by simp
  moreover have "writes tr = []" using marshal_failed(6) loop_writes [OF marshal_failed(3)] by simp
  ultimately have ?stopped
    by (intro exI [of _ ?pre] exI [of _ ?ev]) simp
  then show ?thesis by simp
next
  case (published environ ts md evs idx prod err pevs)
  from assemble_ok [OF published(2)] have ok: "\<forall>x\<in>set evs. stops x = None" by auto
  let ?head = "start w environ @ evs @ [Marshalled md (Inr (idx, prod))]"
  have head: "\<forall>x\<in>set ?head. stops x = None"
    using stops_start [OF published(1)] ok by auto
  have tr: "tr = ?head @ pevs @ closing c" using published(8) by simp
  have w0: "writes tr = writes pevs"
    using published(8) loop_writes [OF published(3)] by simp
  have m: "Marshalled md (Inr (idx, prod)) \<in> set tr" using published(8) by simp
  let ?s = "Storage environ"
  let ?dir = "directory w c"
  from published(5) show ?thesis
  proof (cases rule: put_two_cases)
    case (resolve1_failed e)
    let ?ev = "Resolved ?s (index_path w) (Inl e)"
    have "tr = ?head @ ?ev # closing c" using tr resolve1_failed(3) by simp
    moreover have "stops ?ev = Some out" using published(7) resolve1_failed(2) by simp
    moreover have "writes tr = []" using w0 resolve1_failed(3) by simp
    moreover note head
    ultimately have ?stopped
      by (intro exI [of _ ?head] exI [of _ ?ev]) simp
    then show ?thesis by simp
  next
    case (put1_failed a1 e)
    let ?pre = "?head @ announce ?dir ?s (index_path w) a1"
    let ?ev = "Put ?s (index_path w) idx (int (length idx)) (Some e)"
    have "tr = ?pre @ ?ev # closing c" using tr put1_failed(3) by simp
    moreover have "\<forall>x\<in>set ?pre. stops x = None" using head by auto
    moreover have "stops ?ev = Some out" "out = Return (Some e)"
      using published(7) put1_failed(2) by simp_all
    moreover have "writes tr = [(index_path w, idx, Some e)]" using w0 put1_failed(3) by simp
    ultimately have ?stopped
      by (intro exI [of _ ?pre] exI [of _ ?ev]) simp
    then show ?thesis by simp
  next
    case (resolve2_failed a1 e)
    let ?pre = "?head @ announce ?dir ?s (index_path w) a1
      @ [Put ?s (index_path w) idx (int (length idx)) None]"
    let ?ev = "Resolved ?s (products_path w) (Inl e)"
    have "tr = ?pre @ ?ev # closing c" using tr resolve2_failed(3) by simp
    moreover have "\<forall>x\<in>set ?pre. stops x = None" using head by auto
    moreover have "stops ?ev = Some out" "out = Return (Some e)"
      using published(7) resolve2_failed(2) by simp_all
    moreover have "writes tr = [(index_path w, idx, None)]" using w0 resolve2_failed(3) by simp
    ultimately have ?stopped
      by (intro exI [of _ ?pre] exI [of _ ?ev]) simp
    then show ?thesis by simp
  next
    case (put2_failed a1 a2 e)
    let ?pre = "?head @ announce ?dir ?s (index_path w) a1
      @ Put ?s (index_path w) idx (int (length idx)) None
      # announce ?dir ?s (products_path w) a2"
    let ?ev = "Put ?s (products_path w) prod (int (length prod)) (Some e)"
    have "tr = ?pre @ ?ev # closing c" using tr put2_failed(3) by simp
    moreover have "\<forall>x\<in>set ?pre. stops x = None" using head by auto
    moreover have "stops ?ev = Some out" "out = Return (Some e)"
      using published(7) put2_failed(2) by simp_all
    moreover have "writes tr = [(index_path w, idx, None), (products_path w, prod, Some e)]"
      using w0 put2_failed(3) by simp
    ultimately have ?stopped
      by (intro exI [of _ ?pre] exI [of _ ?ev]) simp
    then show ?thesis by simp
  next
    case (both a1 a2)
    have "\<forall>x\<in>set pevs. stops x = None" using both(3) by auto
    with head tr have "\<forall>x\<in>set tr. stops x = None" by auto
    moreover have "writes tr = [(index_path w, idx, None), (products_path w, prod, None)]"
      using w0 both(3) by simp
    moreover have "out = Return None" using published(7) both(2) by simp
    moreover note m
    ultimately have ?finished
      by (intro conjI exI [of _ md] exI [of _ idx] exI [of _ prod]) simp_all
    then show ?thesis by simp
  qed
qed

theorem Run_outcomes_witness:
  "fst (Run products_refused fetching) = Return (Some (Error ''disk full''))
   \<and> writes (snd (Run products_refused fetching)) =
       [(index_path products_refused, [0x69], None),
        (products_path products_refused, [0x70], Some (Error ''disk full''))]"
proof -
  have v: "writes (snd (Run products_refused fetching)) =
       [(index_path products_refused, [0x69], None),
        (products_path products_refused, [0x70], Some (Error ''disk full''))]"
    by (simp add: run_defs products_refused_def example_defs)
  have ne: "snd (Run products_refused fetching) \<noteq> []"
  proof
    assume "snd (Run products_refused fetching) = []"
    with v show False by simp
  qed
  from Run_outcomes [of products_refused fetching, OF prod.collapse [symmetric]] ne
  have "fst (Run products_refused fetching) = Return (Some (Error ''disk full''))"
    unfolding v by auto
  with v show ?thesis by simp
qed

theorem panic_without_error_counterexample:
  "url_Parse no_path ''https://host'' =
     Inr \<lparr>url_Scheme = ''https'', url_Host = ''host'', url_Path = ''''\<rparr> \<and>
   fst (Run no_path fetching) = Panic \<and>
   writes (snd (Run no_path fetching)) = []"
  by (simp add: run_defs no_path_def example_defs)

text \<open>
  C7. A run that returns nil has written exactly two objects, both under \<open>tools/\<close>: the
  index at \<open>tools/\<close> followed by the default index path and the unsigned suffix, and the
  products document at \<open>tools/\<close> followed by the product metadata path. With a metadata
  directory (not empty once normalised), the path reported for each object, in the line
  \<open>Writing ...\<close> printed before its write, is the directory held by the command (the
  normalised one, line 60) joined with the logical path.
\<close>

theorem Run_success_publishes:
  assumes "Run w c = (Return None, tr)"
  shows "\<exists>recs idx prod.
     Marshalled recs (Inr (idx, prod)) \<in> set tr \<and>
     writes tr =
       [(''tools/'' @ simplestreams_DefaultIndexPath w @ simplestreams_UnsignedSuffix w, idx, None),
        (''tools/'' @ tools_ProductMetadataPath w, prod, None)] \<and>
     (metadataDir c \<noteq> '''' \<longrightarrow> utils_NormalizePath w (metadataDir c) \<noteq> '''' \<longrightarrow>
        (\<exists>pre s.
           tr = pre @
             [Marshalled recs (Inr (idx, prod)),
              Printed (''Writing '' @
                filepath_Join w (utils_NormalizePath w (metadataDir c))
                  (''tools/'' @ simplestreams_DefaultIndexPath w @ simplestreams_UnsignedSuffix w)
                @ [newline]),
              Put s (''tools/'' @ simplestreams_DefaultIndexPath w @ simplestreams_UnsignedSuffix w)
                idx (int (length idx)) None,
              Printed (''Writing '' @
                filepath_Join w (utils_NormalizePath w (metadataDir c))
                  (''tools/'' @ tools_ProductMetadataPath w)
                @ [newline]),
              Put s (''tools/'' @ tools_ProductMetadataPath w) prod (int (length prod)) None,
              Closed]))"
  using assms
proof (cases rule: Run_shape)
  case (setup_failed e)
  then show ?thesis by simp
next
  case (find_failed environ e)
  then show ?thesis by simp
next
  case (loop_failed environ ts evs)
  with assemble_abort [OF loop_failed(2)] show ?thesis by simp
next
  case (marshal_failed environ ts md evs e)
  then show ?thesis by simp
next
  case (published environ ts md evs idx prod err pevs)
  have w0: "writes tr = writes pevs"
    using published(8) loop_writes [OF published(3)] by simp
  have m: "Marshalled md (Inr (idx, prod)) \<in> set tr" using published(8) by simp
  from published(5) show ?thesis
  proof (cases rule: put_two_cases)
    case (resolve1_failed e)
    with published(7) show ?thesis by simp
  next
    case (put1_failed a1 e)
    with published(7) show ?thesis by simp
  next
    case (resolve2_failed a1 e)
    with published(7) show ?thesis by simp
  next
    case (put2_failed a1 a2 e)
    with published(7) show ?thesis by simp
  next
    case (both a1 a2)
    have wr: "writes tr =
       [(''tools/'' @ simplestreams_DefaultIndexPath w @ simplestreams_UnsignedSuffix w, idx, None),
        (''tools/'' @ tools_ProductMetadataPath w, prod, None)]"
      using w0 both(3) by (simp add: index_path_def products_path_def pathPrefix_def)
    have loc: "\<exists>pre s.
           tr = pre @
             [Marshalled md (Inr (idx, prod)),
              Printed (''Writing '' @
                filepath_Join w (utils_NormalizePath w (metadataDir c))
                  (''tools/'' @ simplestreams_DefaultIndexPath w @ simplestreams_UnsignedSuffix w)
                @ [newline]),
              Put s (''tools/'' @ simplestreams_DefaultIndexPath w @ simplestreams_UnsignedSuffix w)
                idx (int (length idx)) None,
              Printed (''Writing '' @
                filepath_Join w (utils_NormalizePath w (metadataDir c))
                  (''tools/'' @ tools_ProductMetadataPath w)
                @ [newline]),
              Put s (''tools/'' @ tools_ProductMetadataPath w) prod (int (length prod)) None,
              Closed]"
      if d: "metadataDir c \<noteq> ''''" "utils_NormalizePath w (metadataDir c) \<noteq> ''''"
    proof -
      from d have dir: "directory w c = utils_NormalizePath w (metadataDir c)" "directory w c \<noteq> ''''"
        by (simp_all add: directory_def)
      from d have cl: "closing c = [Closed]" by (simp add: closing_def)
      have "tr = (start w environ @ evs) @
             [Marshalled md (Inr (idx, prod)),
              Printed (''Writing '' @
                filepath_Join w (utils_NormalizePath w (metadataDir c))
                  (''tools/'' @ simplestreams_DefaultIndexPath w @ simplestreams_UnsignedSuffix w)
                @ [newline]),
              Put (Storage environ) (''tools/'' @ simplestreams_DefaultIndexPath w @ simplestreams_UnsignedSuffix w)
                idx (int (length idx)) None,
              Printed (''Writing '' @
                filepath_Join w (utils_NormalizePath w (metadataDir c))
                  (''tools/'' @ tools_ProductMetadataPath w)
                @ [newline]),
              Put (Storage environ) (''tools/'' @ tools_ProductMetadataPath w) prod (int (length prod)) None,
              Closed]"
        using published(8) both(1,3) dir cl
        by (simp add: announce_def index_path_def products_path_def pathPrefix_def)
      then show ?thesis by blast
    qed
    from m wr loc show ?thesis by blast
  qed
qed

theorem Run_success_publishes_witness:
  "fst (Run world0 to_directory) = Return None \<and>
   (\<exists>pre s recs idx prod.
      snd (Run world0 to_directory) = pre @
        [Marshalled recs (Inr (idx, prod)),
         Printed (''Writing /tmp/out/tools/streams/v1/index.json'' @ [newline]),
         Put s ''tools/streams/v1/index.json'' idx (int (length idx)) None,
         Printed (''Writing /tmp/out/tools/streams/v1/com.ubuntu.juju:released:tools.json''
           @ [newline]),
         Put s ''tools/streams/v1/com.ubuntu.juju:released:tools.json'' prod
           (int (length prod)) None,
         Closed])"
proof -
  have f: "fst (Run world0 to_directory) = Return None"
    by (simp add: run_defs example_defs)
  then have h: "Run world0 to_directory = (Return None, snd (Run world0 to_directory))"
    by (metis prod.collapse)
  have d: "metadataDir to_directory \<noteq> ''''"
    "utils_NormalizePath world0 (metadataDir to_directory) \<noteq> ''''"
    by (simp_all add: example_defs)
  from Run_success_publishes [OF h] d obtain recs idx prod pre s where
    "snd (Run world0 to_directory) = pre @
             [Marshalled recs (Inr (idx, prod)),
              Printed (''Writing '' @
                filepath_Join world0 (utils_NormalizePath world0 (metadataDir to_directory))
                  (''tools/'' @ simplestreams_DefaultIndexPath world0 @ simplestreams_UnsignedSuffix world0)
                @ [newline]),
              Put s (''tools/'' @ simplestreams_DefaultIndexPath world0 @ simplestreams_UnsignedSuffix world0)
                idx (int (length idx)) None,
              Printed (''Writing '' @
                filepath_Join world0 (utils_NormalizePath world0 (metadataDir to_directory))
                  (''tools/'' @ tools_ProductMetadataPath world0)
                @ [newline]),
              Put s (''tools/'' @ tools_ProductMetadataPath world0) prod (int (length prod)) None,
              Closed]"
    by blast
  then have "snd (Run world0 to_directory) = pre @
        [Marshalled recs (Inr (idx, prod)),
         Printed (''Writing /tmp/out/tools/streams/v1/index.json'' @ [newline]),
         Put s ''tools/streams/v1/index.json'' idx (int (length idx)) None,
         Printed (''Writing /tmp/out/tools/streams/v1/com.ubuntu.juju:released:tools.json''
           @ [newline]),
         Put s ''tools/streams/v1/com.ubuntu.juju:released:tools.json'' prod
           (int (length prod)) None,
         Closed]"
    by (simp add: world0_def to_directory_def)
  with f show ?thesis by blast
qed

text \<open>
  C6. When discovery returns no candidate, \<open>Run\<close> parses and fetches nothing and calls the
  marshaller on the empty sequence of records. The empty result is no error of its own:
  \<open>Run\<close> returns nil with the two documents of the marshaller written, unless the
  marshaller, the resolution of an address or a write fails, and then \<open>Run\<close> returns that
  error.
\<close>

theorem Run_no_candidates:
  assumes "Run w c = (out, tr)" and "Found environ major (Inr []) \<in> set tr"
  shows "Marshalled [] (tools_MarshalToolsMetadataJSON w []) \<in> set tr \<and>
     (\<forall>u r. Parsed u r \<notin> set tr) \<and> (\<forall>u g. Fetched u g \<notin> set tr) \<and>
     ((\<exists>idx prod. out = Return None \<and> tools_MarshalToolsMetadataJSON w [] = Inr (idx, prod) \<and>
          writes tr = [(index_path w, idx, None), (products_path w, prod, None)])
      \<or> (\<exists>e. out = Return (Some e) \<and>
            (Marshalled [] (Inl e) \<in> set tr
             \<or> (\<exists>s p. Resolved s p (Inl e) \<in> set tr)
             \<or> (\<exists>s p d n. Put s p d n (Some e) \<in> set tr))))"
  using assms(1)
proof (cases rule: Run_shape)
  case (setup_failed e)
  with assms(2) show ?thesis by simp
next
  case (find_failed en e)
  with assms(2) show ?thesis by (simp add: start_def)
next
  case (loop_failed en ts evs)
  from assms(2) loop_failed(4) loop_events_only(1) [OF loop_failed(3)]
  have "Found environ major (Inr []) \<in> set (start w en)" by simp
  with loop_failed(1) have "ts = []" by (simp add: start_def)
  with loop_failed(2) show ?thesis by simp
next
  case (marshal_failed en ts md evs e)
  from assms(2) marshal_failed(6) loop_events_only(1) [OF marshal_failed(3)]
  have "Found environ major (Inr []) \<in> set (start w en)" by simp
  with marshal_failed(1) have "ts = []" by (simp add: start_def)
  with marshal_failed(2) have e: "md = []" "evs = []" by simp_all
  with marshal_failed(4,5,6) show ?thesis by simp
next
  case (published en ts md evs idx prod err pevs)
  note ponly = publish_events_only [OF published(6)]
  from assms(2) published(8) loop_events_only(1) [OF published(3)] ponly(1)
  have "Found environ major (Inr []) \<in> set (start w en)" by simp
  with published(1) have "ts = []" by (simp add: start_def)
  with published(2) have e: "md = []" "evs = []" by simp_all
  have tr: "tr = start w en @ Marshalled [] (Inr (idx, prod)) # pevs @ closing c"
    using published(8) e by simp
  have a: "Marshalled [] (tools_MarshalToolsMetadataJSON w []) \<in> set tr"
    using tr published(4) e by simp
  have b: "\<forall>u r. Parsed u r \<notin> set tr" using tr ponly(3) by simp
  have f: "\<forall>u g. Fetched u g \<notin> set tr" using tr ponly(4) by simp
  have w0: "writes tr = writes pevs" using tr by simp
  have "(\<exists>idx prod. out = Return None \<and> tools_MarshalToolsMetadataJSON w [] = Inr (idx, prod) \<and>
          writes tr = [(index_path w, idx, None), (products_path w, prod, None)])
      \<or> (\<exists>e. out = Return (Some e) \<and>
            (Marshalled [] (Inl e) \<in> set tr
             \<or> (\<exists>s p. Resolved s p (Inl e) \<in> set tr)
             \<or> (\<exists>s p d n. Put s p d n (Some e) \<in> set tr)))"
    using published(5)
  proof (cases rule: put_two_cases)
    case (resolve1_failed e')
    have "Resolved (Storage en) (index_path w) (Inl e') \<in> set tr" using tr resolve1_failed(3) by simp
    with published(7) resolve1_failed(2) show ?thesis by blast
  next
    case (put1_failed a1 e')
    have "Put (Storage en) (index_path w) idx (int (length idx)) (Some e') \<in> set tr"
      using tr put1_failed(3) by simp
    with published(7) put1_failed(2) show ?thesis by blast
  next
    case (resolve2_failed a1 e')
    have "Resolved (Storage en) (products_path w) (Inl e') \<in> set tr" using tr resolve2_failed(3) by simp
    with published(7) resolve2_failed(2) show ?thesis by blast
  next
    case (put2_failed a1 a2 e')
    have "Put (Storage en) (products_path w) prod (int (length prod)) (Some e') \<in> set tr"
      using tr put2_failed(3) by simp
    with published(7) put2_failed(2) show ?thesis by blast
  next
    case (both a1 a2)
    with w0 published(4,7) e show ?thesis by simp
  qed
  with a b f show ?thesis by blast
qed

theorem Run_no_candidates_witness:
  "Found (Environ ''ec2'') 1 (Inr []) \<in> set (snd (Run no_tools fetching)) \<and>
   Marshalled [] (Inr ([0x69], [0x70])) \<in> set (snd (Run no_tools fetching)) \<and>
   fst (Run no_tools fetching) = Return None \<and>
   writes (snd (Run no_tools fetching)) =
     [(''tools/streams/v1/index.json'', [0x69], None),
      (''tools/streams/v1/com.ubuntu.juju:released:tools.json'', [0x70], None)]"
proof -
  have h: "Found (Environ ''ec2'') 1 (Inr []) \<in> set (snd (Run no_tools fetching))"
    by (simp add: run_defs no_tools_def example_defs)
  have m: "tools_MarshalToolsMetadataJSON no_tools [] = Inr ([0x69], [0x70])"
    by (simp add: no_tools_def world0_def)
  have n: "\<forall>s p d n e. Put s p d n (Some e) \<notin> set (snd (Run no_tools fetching))"
    "\<forall>s p e. Resolved s p (Inl e) \<notin> set (snd (Run no_tools fetching))"
    "\<forall>e. Marshalled [] (Inl e) \<notin> set (snd (Run no_tools fetching))"
    by (simp_all add: run_defs no_tools_def example_defs)
  have p: "index_path no_tools = ''tools/streams/v1/index.json''"
    "products_path no_tools = ''tools/streams/v1/com.ubuntu.juju:released:tools.json''"
    by (simp_all add: run_defs no_tools_def example_defs)
  from Run_no_candidates [OF prod.collapse [symmetric] h] h m n p show ?thesis by auto
qed

subsection \<open>The records\<close>

text \<open>
  C1. The records \<open>Run\<close> hands to the marshaller are one for each candidate found, in
  order. With fetching disabled nothing is fetched and every record has size 0 and an
  empty digest. With fetching enabled there is exactly one fetch for each candidate, in
  order and from the candidate's URL; its body was read to the end without error, the
  size of the record is the number of bytes read and the digest of the record is the
  hexadecimal form of the SHA-256 sum of exactly these bytes.
\<close>

theorem Run_size_and_digest:
  assumes "Run w c = (out, tr)" and "Found environ major (Inr ts) \<in> set tr"
    and "Marshalled recs docs \<in> set tr"
  shows "length recs = length ts \<and>
    (if fetch c then
       length (fetched tr) = length ts \<and>
       (\<forall>i<length ts. \<exists>resp.
          fetched tr ! i = (tools_URL (ts ! i), Inr resp) \<and>
          body_error (Body resp) = None \<and>
          Size (recs ! i) = int (length (body_bytes (Body resp))) \<and>
          SHA256 (recs ! i) = Sprintf_x (sha256_Sum w (body_bytes (Body resp))))
     else
       fetched tr = [] \<and> (\<forall>i<length ts. Size (recs ! i) = 0 \<and> SHA256 (recs ! i) = ''''))"
proof -
  from assms obtain evs where
    a: "assemble w (fetch c) ts (start w environ) = (Inr recs, start w environ @ evs)"
    and f: "fetched tr = fetched (start w environ @ evs)"
    by (rule Run_marshalled)
  show ?thesis
  proof (cases "fetch c")
    case True
    with a have "assemble w True ts (start w environ) = (Inr recs, start w environ @ evs)" by simp
    from assemble_fetched [OF this] f True show ?thesis by auto
  next
    case False
    with a have "assemble w False ts (start w environ) = (Inr recs, start w environ @ evs)" by simp
    from assemble_not_fetched [OF this] f False show ?thesis by auto
  qed
qed

theorem Run_size_and_digest_witness:
  "Found (Environ ''ec2'') 1 (Inr [tools_1_2_3]) \<in> set (snd (Run world0 fetching)) \<and>
   Marshalled
     [\<lparr>Release = ''ubuntu'', Version = ''1.2.3'', Arch = ''amd64'',
       Path = ''tools/1.2.3/ubuntu-amd64.tar.gz'', FileType = ''tar.gz'',
       Size = 42, SHA256 = ''2ad0''\<rparr>]
     (Inr ([0x69], [0x70])) \<in> set (snd (Run world0 fetching)) \<and>
   fetch fetching \<and>
   length (fetched (snd (Run world0 fetching))) = 1 \<and>
   Found (Environ ''ec2'') 1 (Inr [tools_1_2_3]) \<in> set (snd (Run world0 not_fetching)) \<and>
   Marshalled
     [\<lparr>Release = ''ubuntu'', Version = ''1.2.3'', Arch = ''amd64'',
       Path = ''tools/1.2.3/ubuntu-amd64.tar.gz'', FileType = ''tar.gz'',
       Size = 0, SHA256 = ''''\<rparr>]
     (Inr ([0x69], [0x70])) \<in> set (snd (Run world0 not_fetching)) \<and>
   \<not> fetch not_fetching \<and>
   fetched (snd (Run world0 not_fetching)) = []"
proof -
  have f: "Found (Environ ''ec2'') 1 (Inr [tools_1_2_3]) \<in> set (snd (Run world0 fetching))"
    by (simp add: run_defs example_defs)
  have m: "Marshalled
     [\<lparr>Release = ''ubuntu'', Version = ''1.2.3'', Arch = ''amd64'',
       Path = ''tools/1.2.3/ubuntu-amd64.tar.gz'', FileType = ''tar.gz'',
       Size = 42, SHA256 = ''2ad0''\<rparr>]
     (Inr ([0x69], [0x70])) \<in> set (snd (Run world0 fetching))"
    by (simp add: run_defs example_defs)
  have c: "fetch fetching" "\<not> fetch not_fetching" by (simp_all add: example_defs)
  have f': "Found (Environ ''ec2'') 1 (Inr [tools_1_2_3]) \<in> set (snd (Run world0 not_fetching))"
    by (simp add: run_defs example_defs)
  have m': "Marshalled
     [\<lparr>Release = ''ubuntu'', Version = ''1.2.3'', Arch = ''amd64'',
       Path = ''tools/1.2.3/ubuntu-amd64.tar.gz'', FileType = ''tar.gz'',
       Size = 0, SHA256 = ''''\<rparr>]
     (Inr ([0x69], [0x70])) \<in> set (snd (Run world0 not_fetching))"
    by (simp add: run_defs example_defs)
  from Run_size_and_digest [OF prod.collapse [symmetric] f m] c(1)
  have 1: "length (fetched (snd (Run world0 fetching))) = 1" by simp
  from Run_size_and_digest [OF prod.collapse [symmetric] f' m'] c(2)
  have 2: "fetched (snd (Run world0 not_fetching)) = []" by simp
  from f m c f' m' 1 2 show ?thesis by blast
qed

text \<open>
  C2, as amended. For every candidate of a run that reaches the marshaller, the URL
  parsed to a path that is not empty and the path of the record is that path without its
  first byte, whatever that byte is. So the path of a record begins with a separator
  exactly when the second byte of the URL's path is a separator: the counterexample below
  is a URL whose path begins with two.
\<close>

theorem Run_paths:
  assumes "Run w c = (out, tr)" and "Found environ major (Inr ts) \<in> set tr"
    and "Marshalled recs docs \<in> set tr"
  shows "list_all2
    (\<lambda>t m. \<exists>u. url_Parse w (tools_URL t) = Inr u \<and> url_Path u \<noteq> '''' \<and>
       Path m = drop 1 (url_Path u) \<and>
       ((\<exists>q. Path m = CHR ''/'' # q) \<longleftrightarrow> (\<exists>b q. url_Path u = b # CHR ''/'' # q)))
    ts recs"
proof -
  from assms obtain evs where
    a: "assemble w (fetch c) ts (start w environ) = (Inr recs, start w environ @ evs)"
    by (rule Run_marshalled)
  have step: "\<exists>u. url_Parse w (tools_URL t) = Inr u \<and> url_Path u \<noteq> '''' \<and>
       Path m = drop 1 (url_Path u) \<and>
       ((\<exists>q. Path m = CHR ''/'' # q) \<longleftrightarrow> (\<exists>b q. url_Path u = b # CHR ''/'' # q))"
    if "\<exists>u. url_Parse w (tools_URL t) = Inr u \<and> url_Path u \<noteq> [] \<and> Path m = drop 1 (url_Path u)"
    for t :: Tools and m :: ToolsMetadata
  proof -
    from that obtain u where u: "url_Parse w (tools_URL t) = Inr u" "url_Path u \<noteq> []"
      "Path m = drop 1 (url_Path u)" by blast
    from u(2) obtain b rest where "url_Path u = b # rest" by (cases "url_Path u") auto
    with u show ?thesis by auto
  qed
  show ?thesis
    by (rule list_all2_mono [OF assemble_paths [OF a]]) (rule step)
qed

theorem Run_paths_witness:
  "Found (Environ ''ec2'') 1 (Inr [tools_1_2_3]) \<in> set (snd (Run world0 not_fetching)) \<and>
   Marshalled
     [\<lparr>Release = ''ubuntu'', Version = ''1.2.3'', Arch = ''amd64'',
       Path = ''tools/1.2.3/ubuntu-amd64.tar.gz'', FileType = ''tar.gz'',
       Size = 0, SHA256 = ''''\<rparr>]
     (Inr ([0x69], [0x70])) \<in> set (snd (Run world0 not_fetching)) \<and>
   (\<exists>u. url_Parse world0 (tools_URL tools_1_2_3) = Inr u \<and>
      ''tools/1.2.3/ubuntu-amd64.tar.gz'' = drop 1 (url_Path u))"
proof -
  have f: "Found (Environ ''ec2'') 1 (Inr [tools_1_2_3]) \<in> set (snd (Run world0 not_fetching))"
    by (simp add: run_defs example_defs)
  have m: "Marshalled
     [\<lparr>Release = ''ubuntu'', Version = ''1.2.3'', Arch = ''amd64'',
       Path = ''tools/1.2.3/ubuntu-amd64.tar.gz'', FileType = ''tar.gz'',
       Size = 0, SHA256 = ''''\<rparr>]
     (Inr ([0x69], [0x70])) \<in> set (snd (Run world0 not_fetching))"
    by (simp add: run_defs example_defs)
  from Run_paths [OF prod.collapse [symmetric] f m]
  have "\<exists>u. url_Parse world0 (tools_URL tools_1_2_3) = Inr u \<and>
      ''tools/1.2.3/ubuntu-amd64.tar.gz'' = drop 1 (url_Path u)"
    by auto
  with f m show ?thesis by blast
qed

theorem leading_separator_counterexample:
  "url_Parse double_slash ''https://host//tools/1.2.3/ubuntu-amd64.tar.gz'' =
     Inr \<lparr>url_Scheme = ''https'', url_Host = ''host'',
          url_Path = ''//tools/1.2.3/ubuntu-amd64.tar.gz''\<rparr> \<and>
   fst (Run double_slash not_fetching) = Return None \<and>
   Marshalled
     [\<lparr>Release = ''ubuntu'', Version = ''1.2.3'', Arch = ''amd64'',
       Path = ''/tools/1.2.3/ubuntu-amd64.tar.gz'', FileType = ''tar.gz'',
       Size = 0, SHA256 = ''''\<rparr>]
     (Inr ([0x69], [0x70])) \<in> set (snd (Run double_slash not_fetching)) \<and>
   hd ''/tools/1.2.3/ubuntu-amd64.tar.gz'' = CHR ''/''"
  by (simp add: run_defs double_slash_def example_defs)

subsection \<open>Resolving addresses\<close>

text \<open>
  C8, as amended. With a metadata directory (not empty once normalised) \<open>Run\<close> asks the
  storage for no address. Otherwise it does: once the documents are marshalled the address
  of the index is asked for, and every write is preceded, with nothing in between but the
  progress line that prints the address, by the successful resolution of the address of
  the object written. A failed resolution decides the run: \<open>Run\<close> returns that error and
  does nothing more (the deferred close apart), so the object is not written. The address
  of a successful resolution only goes into the progress line: for a storage whose answer
  to a write depends on the earlier writes alone and whose resolutions succeed, replacing
  the resolver by any other one that succeeds changes neither what \<open>Run\<close> returns nor
  what it writes.
\<close>

theorem Run_address_resolution:
  assumes "Run w c = (out, tr)"
  shows "(metadataDir c \<noteq> '''' \<longrightarrow> utils_NormalizePath w (metadataDir c) \<noteq> '''' \<longrightarrow>
            (\<forall>s p r. Resolved s p r \<notin> set tr))
    \<and> (metadataDir c = '''' \<or> utils_NormalizePath w (metadataDir c) = '''' \<longrightarrow>
            (\<forall>recs docs. Marshalled recs (Inr docs) \<in> set tr \<longrightarrow>
               (\<exists>s r. Resolved s (index_path w) r \<in> set tr))
          \<and> (\<forall>s p d n r. Put s p d n r \<in> set tr \<longrightarrow>
               (\<exists>pre a post. tr = pre @
                  [Resolved s p (Inr a), Printed (''Writing '' @ a @ [newline]), Put s p d n r]
                  @ post)))
    \<and> (\<forall>s p e. Resolved s p (Inl e) \<in> set tr \<longrightarrow>
            out = Return (Some e) \<and> (\<exists>pre. tr = pre @ Resolved s p (Inl e) # closing c))
    \<and> (\<forall>g. (\<forall>tr tr' s p d n. writes tr = writes tr' \<longrightarrow>
                 Storage_Put w tr s p d n = Storage_Put w tr' s p d n) \<longrightarrow>
             (\<forall>tr s p. \<exists>a. Storage_URL w tr s p = Inr a) \<longrightarrow>
             (\<forall>tr s p. \<exists>a. g tr s p = Inr a) \<longrightarrow>
             fst (Run (w\<lparr>Storage_URL := g\<rparr>) c) = out \<and>
             writes (snd (Run (w\<lparr>Storage_URL := g\<rparr>) c)) = writes tr)"
proof -
  note old = Run_resolution_effects [OF assms]
  have remote: "(\<forall>recs docs. Marshalled recs (Inr docs) \<in> set tr \<longrightarrow>
               (\<exists>s r. Resolved s (index_path w) r \<in> set tr))
          \<and> (\<forall>s p d n r. Put s p d n r \<in> set tr \<longrightarrow>
               (\<exists>pre a post. tr = pre @
                  [Resolved s p (Inr a), Printed (''Writing '' @ a @ [newline]), Put s p d n r]
                  @ post))"
    if "metadataDir c = '''' \<or> utils_NormalizePath w (metadataDir c) = ''''"
  proof -
    from that have "directory w c = []" by (auto simp: directory_def)
    from Run_resolves_before_writing [OF assms this] show ?thesis .
  qed
  from old remote show ?thesis by blast
qed

theorem resolution_failure_counterexample:
  "fst (Run world0 not_fetching) = Return None \<and>
   length (writes (snd (Run world0 not_fetching))) = 2 \<and>
   Storage_URL url_fails [] (EnvironStorage ''ec2'') ''tools/streams/v1/index.json''
     = Inl (Error ''no URL'') \<and>
   fst (Run url_fails not_fetching) = Return (Some (Error ''no URL'')) \<and>
   writes (snd (Run url_fails not_fetching)) = []"
  by (simp add: run_defs url_fails_def example_defs)


theorem Run_address_resolution_witness:
  "Resolved (EnvironStorage ''ec2'') ''tools/streams/v1/index.json'' (Inl (Error ''no URL''))
     \<in> set (snd (Run url_fails not_fetching)) \<and>
   fst (Run url_fails not_fetching) = Return (Some (Error ''no URL'')) \<and>
   fst (Run world0 not_fetching) = Return None \<and>
   fst (Run (world0\<lparr>Storage_URL := other_address\<rparr>) not_fetching) = Return None \<and>
   writes (snd (Run (world0\<lparr>Storage_URL := other_address\<rparr>) not_fetching)) =
     writes (snd (Run world0 not_fetching)) \<and>
   metadataDir not_fetching = '''' \<and>
   Put (EnvironStorage ''ec2'') ''tools/streams/v1/index.json'' [0x69] 1 None
     \<in> set (snd (Run world0 not_fetching)) \<and>
   (\<exists>pre a post. snd (Run world0 not_fetching) = pre @
      [Resolved (EnvironStorage ''ec2'') ''tools/streams/v1/index.json'' (Inr a),
       Printed (''Writing '' @ a @ [newline]),
       Put (EnvironStorage ''ec2'') ''tools/streams/v1/index.json'' [0x69] 1 None] @ post) \<and>
   metadataDir to_directory \<noteq> '''' \<and>
   utils_NormalizePath world0 (metadataDir to_directory) \<noteq> '''' \<and>
   Resolved (localstorage_Client ''127.0.0.1:40123'') ''tools/streams/v1/index.json''
     (Inr ''https://store/tools/streams/v1/index.json'') \<notin> set (snd (Run world0 to_directory))"
proof -
  have r: "Resolved (EnvironStorage ''ec2'') ''tools/streams/v1/index.json'' (Inl (Error ''no URL''))
     \<in> set (snd (Run url_fails not_fetching))"
    by (simp add: run_defs url_fails_def example_defs)
  from Run_address_resolution [of url_fails not_fetching, OF prod.collapse [symmetric]] r
  have 1: "fst (Run url_fails not_fetching) = Return (Some (Error ''no URL''))" by blast
  have 0: "fst (Run world0 not_fetching) = Return None" by (simp add: run_defs example_defs)
  have p: "\<forall>tr tr' s p d n. writes tr = writes tr' \<longrightarrow>
      Storage_Put world0 tr s p d n = Storage_Put world0 tr' s p d n"
    by (simp add: world0_def)
  have u: "\<forall>tr s p. \<exists>a. Storage_URL world0 tr s p = Inr a" by (simp add: world0_def)
  have u': "\<forall>tr s p. \<exists>a. other_address tr s p = Inr a" by (simp add: other_address_def)
  note at0 = Run_address_resolution [of world0 not_fetching, OF prod.collapse [symmetric]]
  from at0 p u u'
  have 2: "fst (Run (world0\<lparr>Storage_URL := other_address\<rparr>) not_fetching) =
      fst (Run world0 not_fetching)"
    "writes (snd (Run (world0\<lparr>Storage_URL := other_address\<rparr>) not_fetching)) =
     writes (snd (Run world0 not_fetching))" by blast+
  have m: "metadataDir not_fetching = ''''" by (simp add: example_defs)
  have w: "Put (EnvironStorage ''ec2'') ''tools/streams/v1/index.json'' [0x69] 1 None
     \<in> set (snd (Run world0 not_fetching))"
    by (simp add: run_defs example_defs)
  from at0 m w
  have 4: "\<exists>pre a post. snd (Run world0 not_fetching) = pre @
      [Resolved (EnvironStorage ''ec2'') ''tools/streams/v1/index.json'' (Inr a),
       Printed (''Writing '' @ a @ [newline]),
       Put (EnvironStorage ''ec2'') ''tools/streams/v1/index.json'' [0x69] 1 None] @ post"
    by blast
  have d: "metadataDir to_directory \<noteq> ''''"
    "utils_NormalizePath world0 (metadataDir to_directory) \<noteq> ''''"
    by (simp_all add: example_defs)
  from Run_address_resolution [of world0 to_directory, OF prod.collapse [symmetric]] d
  have 3: "Resolved (localstorage_Client ''127.0.0.1:40123'') ''tools/streams/v1/index.json''
     (Inr ''https://store/tools/streams/v1/index.json'') \<notin> set (snd (Run world0 to_directory))"
    by blast
  from r 1 0 2 m w 4 d 3 show ?thesis by simp
qed

end
